theory Spec2Isabelle
  imports Main "HOL-Library.Sublist"
begin

section \<open>Text\<close>

text \<open>
  A Python \<^verbatim>\<open>str\<close> is a sequence of Unicode code points. Code points are natural
  numbers here, so the box-drawing characters of the separators (U+2500, U+2550) are
  single elements, as they are in Python. ASCII literals of the source are written with
  \<open>ascii\<close>.
\<close>

type_synonym pystr = "nat list"

definition ascii :: "string \<Rightarrow> pystr" where
  "ascii s = map of_char s"

text \<open>
  \<^verbatim>\<open>str.strip\<close>, \<^verbatim>\<open>str.rstrip\<close> and the regular expression class \<^verbatim>\<open>\s\<close> all use the
  interpreter's whitespace test: the characters with bidirectional class WS, B or S, or
  general category Zs.
\<close>

definition is_space :: "nat \<Rightarrow> bool" where
  "is_space c \<longleftrightarrow>
     (9 \<le> c \<and> c \<le> 13) \<or> (28 \<le> c \<and> c \<le> 32) \<or> c = 133 \<or> c = 160 \<or> c = 5760 \<or>
     (8192 \<le> c \<and> c \<le> 8202) \<or> c = 8232 \<or> c = 8233 \<or> c = 8239 \<or> c = 8287 \<or> c = 12288"

definition lstrip :: "pystr \<Rightarrow> pystr" where
  "lstrip s = dropWhile is_space s"

definition rstrip :: "pystr \<Rightarrow> pystr" where
  "rstrip s = rev (dropWhile is_space (rev s))"

definition strip :: "pystr \<Rightarrow> pystr" where
  "strip s = rstrip (lstrip s)"

section \<open>Sanitizer\<close>

text \<open>
  \<^verbatim>\<open>delete_chars\<close> is built from \<^verbatim>\<open>range(32)\<close> without 9, 10 and 13, then 127 is
  appended. \<^verbatim>\<open>str.translate\<close> with a table that maps exactly these characters to
  \<^verbatim>\<open>None\<close> drops them and copies every other character. The guard
  \<^verbatim>\<open>if not text: return text\<close> returns the empty text as it is.
\<close>

definition delete_chars :: pystr where
  "delete_chars = filter (\<lambda>i. i \<noteq> 9 \<and> i \<noteq> 10 \<and> i \<noteq> 13) [0..<32] @ [127]"

definition sanitize_text :: "pystr \<Rightarrow> pystr" where
  "sanitize_text t = (if t = [] then t else filter (\<lambda>c. c \<notin> set delete_chars) t)"

section \<open>Notes records and the differ\<close>

text \<open>
  A note is the dict \<^verbatim>\<open>{"slide_number", "slide_title", "notes"}\<close>. The field
  \<^verbatim>\<open>notes\<close> is \<open>notes_text\<close> here. Slide numbers are
  the naturals: the extractor counts from 1 and the parsers read a run of digits.
\<close>

record notes_record =
  slide_number :: nat
  slide_title :: pystr
  notes_text :: pystr

datatype change_kind = Added | Removed | Modified

record change =
  ch_slide_number :: nat
  ch_slide_title :: pystr
  original_notes :: pystr
  edited_notes :: pystr
  change_type :: change_kind

text \<open>
  A Python dict keeps its keys in the order of their first insertion; storing under a
  key that is present replaces the value and leaves the position. The dict is an
  association list with distinct keys.
\<close>

fun dict_set :: "('k \<times> 'v) list \<Rightarrow> 'k \<Rightarrow> 'v \<Rightarrow> ('k \<times> 'v) list" where
  "dict_set [] k v = [(k, v)]"
| "dict_set ((k', v') # d) k v =
     (if k' = k then (k, v) # d else (k', v') # dict_set d k v)"

text \<open>The comprehension \<^verbatim>\<open>{n["slide_number"]: n for n in ns}\<close>.\<close>

definition by_slide :: "notes_record list \<Rightarrow> (nat \<times> notes_record) list" where
  "by_slide ns = foldl (\<lambda>d n. dict_set d (slide_number n) n) [] ns"

text \<open>
  The body of the loop of \<^verbatim>\<open>compare_notes\<close>: the changes one item appends, given
  \<^verbatim>\<open>original_note = original_by_slide.get(slide_num)\<close>.
\<close>

definition compare_item :: "notes_record option \<Rightarrow> nat \<Rightarrow> notes_record \<Rightarrow> change list" where
  "compare_item original_note slide_num edited_note =
     (case original_note of
        None \<Rightarrow>
          if notes_text edited_note \<noteq> [] then
            [\<lparr>ch_slide_number = slide_num, ch_slide_title = slide_title edited_note,
              original_notes = [], edited_notes = notes_text edited_note, change_type = Added\<rparr>]
          else []
      | Some orig \<Rightarrow>
          let orig_text = strip (notes_text orig);
              edit_text = strip (notes_text edited_note)
          in if orig_text \<noteq> edit_text then
               [\<lparr>ch_slide_number = slide_num, ch_slide_title = slide_title orig,
                 original_notes = orig_text, edited_notes = edit_text,
                 change_type =
                   (if orig_text = [] \<and> edit_text \<noteq> [] then Added
                    else if orig_text \<noteq> [] \<and> edit_text = [] then Removed
                    else Modified)\<rparr>]
             else [])"

fun compare_loop ::
  "(nat \<times> notes_record) list \<Rightarrow> (nat \<times> notes_record) list \<Rightarrow> change list \<Rightarrow> change list" where
  "compare_loop original_by_slide [] changes = changes"
| "compare_loop original_by_slide ((slide_num, edited_note) # items) changes =
     compare_loop original_by_slide items
       (changes @ compare_item (map_of original_by_slide slide_num) slide_num edited_note)"

definition compare_notes :: "notes_record list \<Rightarrow> notes_record list \<Rightarrow> change list" where
  "compare_notes original edited = compare_loop (by_slide original) (by_slide edited) []"

text \<open>
  Two notions the statements about the differ use: the last record of a list that
  carries a given slide number, and the slide numbers of a list in the order of their
  first occurrence.
\<close>

fun last_with :: "nat \<Rightarrow> notes_record list \<Rightarrow> notes_record option" where
  "last_with k [] = None"
| "last_with k (n # ns) =
     (case last_with k ns of
        Some m \<Rightarrow> Some m
      | None \<Rightarrow> if slide_number n = k then Some n else None)"

fun first_occurrences :: "nat list \<Rightarrow> nat list" where
  "first_occurrences [] = []"
| "first_occurrences (k # ks) = k # filter (\<lambda>j. j \<noteq> k) (first_occurrences ks)"

section \<open>Applier\<close>

text \<open>
  \<^verbatim>\<open>apply_notes\<close> drives PowerPoint through COM. The collaborator is a record of what
  each call of the source does when it is made: whether the COM bindings were imported
  (\<^verbatim>\<open>HAS_COM\<close>), what starting the application and opening the deck gives (the slides,
  or the text of the exception raised by \<^verbatim>\<open>EnsureDispatch\<close>, \<^verbatim>\<open>Dispatch\<close> or
  \<^verbatim>\<open>open_presentation_with_retry\<close>), the text of the exception of
  \<^verbatim>\<open>Slides.Item\<close> for an index outside \<open>1..Count\<close>, and the text of the exception of
  \<^verbatim>\<open>Save\<close>, if it raises. A slide gives the shapes of its notes page, or the text of the
  exception that reaching them raises. Reading \<^verbatim>\<open>PlaceholderFormat.Type\<close> raises for a
  shape that is no placeholder (\<open>None\<close>); assigning the text of a shape may raise
  (\<open>text_writable\<close>). Logging is taken not to raise.
\<close>

datatype error = RuntimeError pystr

record shape =
  placeholder_type :: "nat option"
  has_text_frame :: bool
  text_writable :: bool
  shape_text :: pystr

record slide =
  notes_shapes :: "pystr + shape list"

record backend =
  has_com :: bool
  open_presentation :: "pystr + slide list"
  item_error :: "nat \<Rightarrow> pystr"
  save_error :: "pystr option"

record apply_result =
  applied :: "nat list"
  skipped :: "nat list"
  errors :: "pystr list"

text \<open>The decimal numeral of \<^verbatim>\<open>f"{slide_num}"\<close>.\<close>

fun decimal :: "nat \<Rightarrow> pystr" where
  "decimal n = (if n < 10 then [48 + n] else decimal (n div 10) @ [48 + n mod 10])"

declare decimal.simps [simp del]

text \<open>The entry \<^verbatim>\<open>f"Slide {slide_num}: {e}"\<close> of the errors list.\<close>

definition error_line :: "nat \<Rightarrow> pystr \<Rightarrow> pystr" where
  "error_line slide_num e = ascii ''Slide '' @ decimal slide_num @ ascii '': '' @ e"

text \<open>
  The inner loop over the shapes of the notes page: the first shape that is a body
  placeholder (type 2) with a text frame and takes the assignment is written, and the
  loop breaks (\<open>True\<close>); every exception inside the loop body is swallowed by the bare
  \<^verbatim>\<open>except: continue\<close>. \<open>False\<close> when the loop ends with no shape written.
\<close>

fun set_notes_shapes :: "shape list \<Rightarrow> pystr \<Rightarrow> shape list \<times> bool" where
  "set_notes_shapes [] new_notes = ([], False)"
| "set_notes_shapes (sh # shapes) new_notes =
     (case placeholder_type sh of
        None \<Rightarrow> (case set_notes_shapes shapes new_notes of (shapes', w) \<Rightarrow> (sh # shapes', w))
      | Some t \<Rightarrow>
          if t = 2 \<and> has_text_frame sh then
            if text_writable sh then (sh\<lparr>shape_text := new_notes\<rparr> # shapes, True)
            else (case set_notes_shapes shapes new_notes of (shapes', w) \<Rightarrow> (sh # shapes', w))
          else (case set_notes_shapes shapes new_notes of (shapes', w) \<Rightarrow> (sh # shapes', w)))"

text \<open>\<^verbatim>\<open>pres.Slides.Item(slide_num).NotesPage.Shapes\<close>: the shapes, or the exception's text.\<close>

definition slide_lookup :: "backend \<Rightarrow> slide list \<Rightarrow> nat \<Rightarrow> pystr + shape list" where
  "slide_lookup b slides slide_num =
     (if 1 \<le> slide_num \<and> slide_num \<le> length slides then notes_shapes (slides ! (slide_num - 1))
      else Inl (item_error b slide_num))"

text \<open>The body of the loop over the changes, on the open deck and the result so far.\<close>

definition apply_change ::
  "backend \<Rightarrow> slide list \<times> apply_result \<Rightarrow> change \<Rightarrow> slide list \<times> apply_result" where
  "apply_change b st ch =
     (let slides = fst st; result = snd st;
          slide_num = ch_slide_number ch; new_notes = edited_notes ch
      in case slide_lookup b slides slide_num of
           Inl e \<Rightarrow> (slides, result\<lparr>errors := errors result @ [error_line slide_num e]\<rparr>)
         | Inr shapes \<Rightarrow>
             (case set_notes_shapes shapes new_notes of
                (shapes', True) \<Rightarrow>
                  (slides[slide_num - 1 := \<lparr>notes_shapes = Inr shapes'\<rparr>],
                   result\<lparr>applied := applied result @ [slide_num]\<rparr>)
              | (shapes', False) \<Rightarrow> (slides, result)))"

fun apply_loop ::
  "backend \<Rightarrow> slide list \<times> apply_result \<Rightarrow> change list \<Rightarrow> slide list \<times> apply_result" where
  "apply_loop b st [] = st"
| "apply_loop b st (ch # changes) = apply_loop b (apply_change b st ch) changes"

text \<open>The filter \<^verbatim>\<open>[c for c in changes if c["slide_number"] in slides_to_apply]\<close>.\<close>

definition select_changes :: "change list \<Rightarrow> nat list option \<Rightarrow> change list" where
  "select_changes changes slides_to_apply =
     (case slides_to_apply of
        None \<Rightarrow> changes
      | Some allowed \<Rightarrow> filter (\<lambda>c. ch_slide_number c \<in> set allowed) changes)"

text \<open>
  \<^verbatim>\<open>apply_notes\<close> returns the result dict together with the deck as saved (\<open>None\<close> when
  it returned before opening the deck), or raises.
\<close>

definition apply_notes ::
  "backend \<Rightarrow> change list \<Rightarrow> nat list option \<Rightarrow> error + apply_result \<times> slide list option" where
  "apply_notes b changes slides_to_apply =
     (if \<not> has_com b then Inl (RuntimeError (ascii ''Windows COM API not available''))
      else
        let changes = select_changes changes slides_to_apply in
        if changes = [] then Inr (\<lparr>applied = [], skipped = [], errors = []\<rparr>, None)
        else
          case open_presentation b of
            Inl e \<Rightarrow> Inl (RuntimeError (ascii ''Failed to apply notes: '' @ e))
          | Inr slides \<Rightarrow>
              (case apply_loop b (slides, \<lparr>applied = [], skipped = [], errors = []\<rparr>) changes of
                 (slides', result) \<Rightarrow>
                   (case save_error b of
                      Some e \<Rightarrow> Inl (RuntimeError (ascii ''Failed to apply notes: '' @ e))
                    | None \<Rightarrow> Inr (result, Some slides'))))"

text \<open>
  What the attempt to write one slide comes to, read off the deck: written, failed with
  an exception that reaches the handler of the loop over the changes, or left untouched
  without a trace (no shape of the notes page took the text).
\<close>

datatype attempt = Written | Failed pystr | Untouched

definition writable_body :: "shape \<Rightarrow> bool" where
  "writable_body sh \<longleftrightarrow> placeholder_type sh = Some 2 \<and> has_text_frame sh \<and> text_writable sh"

definition attempt_of :: "backend \<Rightarrow> slide list \<Rightarrow> nat \<Rightarrow> attempt" where
  "attempt_of b slides slide_num =
     (case slide_lookup b slides slide_num of
        Inl e \<Rightarrow> Failed e
      | Inr shapes \<Rightarrow> if list_ex writable_body shapes then Written else Untouched)"

text \<open>
  The slide numbers of the changes that are written, and the error lines of the changes
  that fail, in the order of the changes.
\<close>

definition written_numbers :: "backend \<Rightarrow> slide list \<Rightarrow> change list \<Rightarrow> nat list" where
  "written_numbers b slides changes =
     concat (map (\<lambda>c. case attempt_of b slides (ch_slide_number c) of
                        Written \<Rightarrow> [ch_slide_number c] | Failed e \<Rightarrow> [] | Untouched \<Rightarrow> []) changes)"

definition failure_lines :: "backend \<Rightarrow> slide list \<Rightarrow> change list \<Rightarrow> pystr list" where
  "failure_lines b slides changes =
     concat (map (\<lambda>c. case attempt_of b slides (ch_slide_number c) of
                        Written \<Rightarrow> [] | Failed e \<Rightarrow> [error_line (ch_slide_number c) e]
                      | Untouched \<Rightarrow> []) changes)"

text \<open>
  Two decks for the examples: \<open>deck2\<close> has two slides whose notes page holds one body
  placeholder that takes text; the only slide of \<open>deck_locked\<close> has a body placeholder
  whose text cannot be assigned.
\<close>

definition body_shape :: "bool \<Rightarrow> shape" where
  "body_shape w =
     \<lparr>placeholder_type = Some 2, has_text_frame = True, text_writable = w, shape_text = []\<rparr>"

definition com_backend :: "slide list \<Rightarrow> pystr option \<Rightarrow> backend" where
  "com_backend slides save =
     \<lparr>has_com = True, open_presentation = Inr slides,
      item_error = (\<lambda>n. ascii ''no such slide''), save_error = save\<rparr>"

definition deck2 :: "slide list" where
  "deck2 = [\<lparr>notes_shapes = Inr [body_shape True]\<rparr>, \<lparr>notes_shapes = Inr [body_shape True]\<rparr>]"

definition deck_locked :: "slide list" where
  "deck_locked = [\<lparr>notes_shapes = Inr [body_shape False]\<rparr>]"

definition change_to :: "nat \<Rightarrow> pystr \<Rightarrow> change" where
  "change_to n t =
     \<lparr>ch_slide_number = n, ch_slide_title = [], original_notes = [], edited_notes = t,
      change_type = Added\<rparr>"

section \<open>Serializers\<close>

text \<open>\<^verbatim>\<open>'\n'.join(lines)\<close> and \<^verbatim>\<open>content.split('\n')\<close>.\<close>

fun join_nl :: "pystr list \<Rightarrow> pystr" where
  "join_nl [] = []"
| "join_nl [l] = l"
| "join_nl (l # ls) = l @ 10 # join_nl ls"

fun split_nl :: "pystr \<Rightarrow> pystr list" where
  "split_nl [] = [[]]"
| "split_nl (c # cs) =
     (if c = 10 then [] # split_nl cs
      else case split_nl cs of [] \<Rightarrow> [[c]] | l # ls \<Rightarrow> (c # l) # ls)"

text \<open>
  The text files are opened in text mode with the default \<^verbatim>\<open>newline=None\<close> and
  \<^verbatim>\<open>encoding='utf-8'\<close>. Writing replaces every line feed by the platform's line
  separator (\<open>linesep\<close>: a line feed, or carriage return and line feed on Windows) and
  raises \<^verbatim>\<open>UnicodeEncodeError\<close> on a surrogate code point; reading turns every
  carriage return with a line feed, and every other carriage return, into one line feed.
\<close>

datatype write_error = UnicodeEncodeError | DocxMissing

definition encodable :: "pystr \<Rightarrow> bool" where
  "encodable s = list_all (\<lambda>c. \<not> (55296 \<le> c \<and> c \<le> 57343)) s"

definition file_write :: "pystr \<Rightarrow> pystr \<Rightarrow> write_error + pystr" where
  "file_write linesep s =
     (if encodable s then Inr (concat (map (\<lambda>c. if c = 10 then linesep else [c]) s))
      else Inl UnicodeEncodeError)"

fun file_read :: "pystr \<Rightarrow> pystr" where
  "file_read [] = []"
| "file_read [c] = [if c = 13 then 10 else c]"
| "file_read (c # d # cs) =
     (if c = 13 then (if d = 10 then 10 # file_read cs else 10 # file_read (d # cs))
      else c # file_read (d # cs))"

text \<open>
  The header line \<^verbatim>\<open>Slide N: title\<close>, or \<^verbatim>\<open>Slide N\<close> for an empty title, and the two
  rules: fifty times U+2500 and fifty times U+2550.
\<close>

definition header_text :: "nat \<Rightarrow> pystr \<Rightarrow> pystr" where
  "header_text slide_num title =
     (if title \<noteq> [] then ascii ''Slide '' @ decimal slide_num @ ascii '': '' @ title
      else ascii ''Slide '' @ decimal slide_num)"

definition thin_rule :: pystr where
  "thin_rule = replicate 50 9472"

definition double_rule :: pystr where
  "double_rule = replicate 50 9552"

text \<open>The lines one note appends in \<^verbatim>\<open>export_to_txt\<close>, and the content written.\<close>

definition txt_lines :: "notes_record \<Rightarrow> pystr list" where
  "txt_lines n =
     [header_text (slide_number n) (slide_title n), thin_rule, [],
      (if notes_text n \<noteq> [] then notes_text n else ascii ''[No notes]''),
      [], double_rule, []]"

definition export_to_txt :: "pystr \<Rightarrow> notes_record list \<Rightarrow> write_error + pystr" where
  "export_to_txt linesep ns = file_write linesep (join_nl (concat (map txt_lines ns)))"

text \<open>The lines one note appends in \<^verbatim>\<open>export_to_md\<close>, after the document title.\<close>

definition md_lines :: "notes_record \<Rightarrow> pystr list" where
  "md_lines n =
     [ascii ''## '' @ header_text (slide_number n) (slide_title n), [],
      (if notes_text n \<noteq> [] then notes_text n else ascii ''*[No notes]*''),
      [], ascii ''---'', []]"

definition export_to_md :: "pystr \<Rightarrow> notes_record list \<Rightarrow> write_error + pystr" where
  "export_to_md linesep ns =
     file_write linesep (join_nl ([ascii ''# Speaker Notes'', []] @ concat (map md_lines ns)))"

text \<open>
  A Word document is the list of its paragraphs; a paragraph is its text with the bold
  and italic marks of its run (fonts, sizes and spacing are layout only). The library
  that holds the document is not part of the repository: a paragraph added with a text
  is read back with that text. \<^verbatim>\<open>HAS_DOCX\<close> tells whether the library was imported.
\<close>

record docx_para =
  para_text :: pystr
  para_bold :: bool
  para_italic :: bool

definition plain_para :: "pystr \<Rightarrow> docx_para" where
  "plain_para t = \<lparr>para_text = t, para_bold = False, para_italic = False\<rparr>"

text \<open>
  The header of \<^verbatim>\<open>export_to_docx\<close> tests the title as it is and writes it sanitized.
\<close>

definition docx_header :: "nat \<Rightarrow> pystr \<Rightarrow> pystr" where
  "docx_header slide_num title =
     (if title \<noteq> [] then ascii ''Slide '' @ decimal slide_num @ ascii '': '' @ sanitize_text title
      else ascii ''Slide '' @ decimal slide_num)"

definition docx_paragraphs :: "notes_record \<Rightarrow> docx_para list" where
  "docx_paragraphs n =
     [\<lparr>para_text = docx_header (slide_number n) (slide_title n),
       para_bold = True, para_italic = False\<rparr>,
      plain_para thin_rule] @
     (if notes_text n \<noteq> [] then
        map (\<lambda>para_text. plain_para (strip para_text))
          (filter (\<lambda>para_text. strip para_text \<noteq> []) (split_nl (sanitize_text (notes_text n))))
      else [\<lparr>para_text = ascii ''[No notes]'', para_bold = False, para_italic = True\<rparr>]) @
     [plain_para []]"

definition export_to_docx :: "bool \<Rightarrow> notes_record list \<Rightarrow> write_error + docx_para list" where
  "export_to_docx has_docx ns =
     (if \<not> has_docx then Inl DocxMissing else Inr (concat (map docx_paragraphs ns)))"

section \<open>Parsers\<close>

text \<open>
  The patterns are compiled for \<^verbatim>\<open>str\<close>, so \<^verbatim>\<open>\d\<close> is any decimal digit of Unicode and
  \<^verbatim>\<open>int\<close> reads such digits. The table of decimal digits belongs to the interpreter;
  it is the parameter \<open>dv\<close>, which gives the value of a digit. What the statements
  below assume of it is \<open>digit_table\<close>: on ASCII the digits are \<open>0\<close> to \<open>9\<close>, and no
  whitespace character is a digit. \<open>ascii_digit\<close> is the table with the ASCII digits
  only.
\<close>

type_synonym digits = "nat \<Rightarrow> nat option"

definition digit_table :: "digits \<Rightarrow> bool" where
  "digit_table dv \<longleftrightarrow>
     (\<forall>c. c < 128 \<longrightarrow> dv c = (if 48 \<le> c \<and> c \<le> 57 then Some (c - 48) else None)) \<and>
     (\<forall>c. is_space c \<longrightarrow> dv c = None)"

definition ascii_digit :: digits where
  "ascii_digit c = (if 48 \<le> c \<and> c \<le> 57 then Some (c - 48) else None)"

definition is_digit :: "digits \<Rightarrow> nat \<Rightarrow> bool" where
  "is_digit dv c \<longleftrightarrow> dv c \<noteq> None"

text \<open>\<^verbatim>\<open>int(match.group(1))\<close> on a run of digits.\<close>

definition int_of_digits :: "digits \<Rightarrow> pystr \<Rightarrow> nat" where
  "int_of_digits dv ds = foldl (\<lambda>a c. 10 * a + (case dv c of Some v \<Rightarrow> v | None \<Rightarrow> 0)) 0 ds"

text \<open>
  With \<^verbatim>\<open>re.IGNORECASE\<close> a letter of the pattern matches the characters whose lower
  case it is, and the characters the pattern compiler lists as equivalent: the long s
  (U+017F) for \<open>s\<close>, and the dotless i (U+0131) and the capital I with dot (U+0130,
  whose lower case is \<open>i\<close>) for \<open>i\<close>. \<open>p\<close> is a lower-case ASCII letter of the pattern.
\<close>

definition letter_match :: "nat \<Rightarrow> nat \<Rightarrow> bool" where
  "letter_match p c \<longleftrightarrow>
     c = p \<or> c + 32 = p \<or> (p = 115 \<and> c = 383) \<or> (p = 105 \<and> (c = 304 \<or> c = 305))"

fun word_match :: "pystr \<Rightarrow> pystr \<Rightarrow> pystr option" where
  "word_match [] s = Some s"
| "word_match (p # ps) [] = None"
| "word_match (p # ps) (c # cs) = (if letter_match p c then word_match ps cs else None)"

text \<open>
  \<^verbatim>\<open>$\<close> without \<^verbatim>\<open>re.MULTILINE\<close>: at the end of the text, or before a line feed that
  ends the text.
\<close>

definition at_end :: "pystr \<Rightarrow> bool" where
  "at_end s \<longleftrightarrow> s = [] \<or> s = [10]"

text \<open>
  \<^verbatim>\<open>^Slide\s+(\d+)(?::\s*(.*))?$\<close>, matched at the start of the text: the slide number
  and \<^verbatim>\<open>match.group(2) or ""\<close>. Every repetition is greedy and, for a digit table as
  above, giving characters back never helps: what follows the whitespace is no
  whitespace, what follows the digits is no digit, and \<^verbatim>\<open>.\<close> stops only at a line feed.
\<close>

definition slide_pattern :: "digits \<Rightarrow> pystr \<Rightarrow> (nat \<times> pystr) option" where
  "slide_pattern dv s =
     (case word_match (ascii ''slide'') s of
        None \<Rightarrow> None
      | Some r \<Rightarrow>
          let r1 = dropWhile is_space r;
              ds = takeWhile (is_digit dv) r1;
              r2 = dropWhile (is_digit dv) r1
          in if takeWhile is_space r = [] \<or> ds = [] then None
             else if r2 \<noteq> [] \<and> hd r2 = 58 then
               let t = dropWhile is_space (tl r2)
               in if at_end (dropWhile (\<lambda>c. c \<noteq> 10) t)
                  then Some (int_of_digits dv ds, takeWhile (\<lambda>c. c \<noteq> 10) t)
                  else None
             else if at_end r2 then Some (int_of_digits dv ds, [])
             else None)"

text \<open>\<^verbatim>\<open>^##\s+Slide\s+(\d+)(?::\s*(.*))?$\<close>, the pattern of the Markdown parser.\<close>

definition md_slide_pattern :: "digits \<Rightarrow> pystr \<Rightarrow> (nat \<times> pystr) option" where
  "md_slide_pattern dv s =
     (if take 2 s = [35, 35] \<and> takeWhile is_space (drop 2 s) \<noteq> []
      then slide_pattern dv (dropWhile is_space (drop 2 s))
      else None)"

text \<open>\<^verbatim>\<open>^[...]{10,}$\<close> over the two rule characters U+2500 and U+2550.\<close>

definition is_rule :: "nat \<Rightarrow> bool" where
  "is_rule c \<longleftrightarrow> c = 9472 \<or> c = 9552"

definition separator_pattern :: "pystr \<Rightarrow> bool" where
  "separator_pattern s \<longleftrightarrow> 10 \<le> length (takeWhile is_rule s) \<and> at_end (dropWhile is_rule s)"

text \<open>
  Saving the slide that is open, if any: the buffered lines joined by line feeds and
  trimmed, the placeholder collapsed to the empty text.
\<close>

definition save_slide ::
  "pystr \<Rightarrow> notes_record list \<Rightarrow> (nat \<times> pystr) option \<Rightarrow> pystr list \<Rightarrow> notes_record list" where
  "save_slide placeholder notes_data current_slide current_notes =
     (case current_slide of
        None \<Rightarrow> notes_data
      | Some (number, title) \<Rightarrow>
          let t = strip (join_nl current_notes)
          in notes_data @
               [\<lparr>slide_number = number, slide_title = title,
                 notes_text = (if t = placeholder then [] else t)\<rparr>])"

text \<open>The loop of \<^verbatim>\<open>_parse_txt\<close> over the lines, and the parser on the file's content.\<close>

fun parse_txt_loop ::
  "digits \<Rightarrow> pystr list \<Rightarrow> notes_record list \<Rightarrow> (nat \<times> pystr) option \<Rightarrow> pystr list \<Rightarrow>
     notes_record list" where
  "parse_txt_loop dv [] notes_data current_slide current_notes =
     save_slide (ascii ''[No notes]'') notes_data current_slide current_notes"
| "parse_txt_loop dv (line # lines) notes_data current_slide current_notes =
     (let text = strip line in
      if separator_pattern text then parse_txt_loop dv lines notes_data current_slide current_notes
      else case slide_pattern dv text of
        Some m \<Rightarrow>
          parse_txt_loop dv lines
            (save_slide (ascii ''[No notes]'') notes_data current_slide current_notes) (Some m) []
      | None \<Rightarrow>
          if current_slide \<noteq> None \<and> text \<noteq> ascii ''[No notes]''
          then parse_txt_loop dv lines notes_data current_slide (current_notes @ [rstrip line])
          else parse_txt_loop dv lines notes_data current_slide current_notes)"

definition parse_txt :: "digits \<Rightarrow> pystr \<Rightarrow> notes_record list" where
  "parse_txt dv file = parse_txt_loop dv (split_nl (file_read file)) [] None []"

text \<open>The loop of \<^verbatim>\<open>_parse_md\<close>.\<close>

fun parse_md_loop ::
  "digits \<Rightarrow> pystr list \<Rightarrow> notes_record list \<Rightarrow> (nat \<times> pystr) option \<Rightarrow> pystr list \<Rightarrow>
     notes_record list" where
  "parse_md_loop dv [] notes_data current_slide current_notes =
     save_slide (ascii ''*[No notes]*'') notes_data current_slide current_notes"
| "parse_md_loop dv (line # lines) notes_data current_slide current_notes =
     (let text = strip line in
      if take 2 text = ascii ''# '' \<or> text = ascii ''---''
      then parse_md_loop dv lines notes_data current_slide current_notes
      else case md_slide_pattern dv text of
        Some m \<Rightarrow>
          parse_md_loop dv lines
            (save_slide (ascii ''*[No notes]*'') notes_data current_slide current_notes) (Some m) []
      | None \<Rightarrow>
          if current_slide \<noteq> None \<and> text \<noteq> ascii ''*[No notes]*''
          then parse_md_loop dv lines notes_data current_slide (current_notes @ [rstrip line])
          else parse_md_loop dv lines notes_data current_slide current_notes)"

definition parse_md :: "digits \<Rightarrow> pystr \<Rightarrow> notes_record list" where
  "parse_md dv file = parse_md_loop dv (split_nl (file_read file)) [] None []"

text \<open>The loop of \<^verbatim>\<open>_parse_docx\<close> over the paragraphs of the document.\<close>

fun parse_docx_loop ::
  "digits \<Rightarrow> docx_para list \<Rightarrow> notes_record list \<Rightarrow> (nat \<times> pystr) option \<Rightarrow> pystr list \<Rightarrow>
     notes_record list" where
  "parse_docx_loop dv [] notes_data current_slide current_notes =
     save_slide (ascii ''[No notes]'') notes_data current_slide current_notes"
| "parse_docx_loop dv (para # paras) notes_data current_slide current_notes =
     (let text = strip (para_text para) in
      if text = [] \<or> separator_pattern text
      then parse_docx_loop dv paras notes_data current_slide current_notes
      else case slide_pattern dv text of
        Some m \<Rightarrow>
          parse_docx_loop dv paras
            (save_slide (ascii ''[No notes]'') notes_data current_slide current_notes) (Some m) []
      | None \<Rightarrow>
          if current_slide \<noteq> None \<and> text \<noteq> ascii ''[No notes]''
          then parse_docx_loop dv paras notes_data current_slide (current_notes @ [text])
          else parse_docx_loop dv paras notes_data current_slide current_notes)"

definition parse_docx :: "digits \<Rightarrow> bool \<Rightarrow> docx_para list \<Rightarrow> write_error + notes_record list" where
  "parse_docx dv has_docx doc =
     (if \<not> has_docx then Inl DocxMissing else Inr (parse_docx_loop dv doc [] None []))"

section \<open>Round trips\<close>

text \<open>
  The three loops have one shape: a unit of the input (a line, a paragraph) is skipped,
  or is a header, or else is kept in the buffer of the open slide unless it is the
  placeholder. \<open>parse_loop\<close> is that shape, for the proofs; each loop above is an
  instance of it.
\<close>

fun parse_loop ::
  "('a \<Rightarrow> bool) \<Rightarrow> ('a \<Rightarrow> (nat \<times> pystr) option) \<Rightarrow> ('a \<Rightarrow> bool) \<Rightarrow> ('a \<Rightarrow> pystr) \<Rightarrow> pystr \<Rightarrow>
     'a list \<Rightarrow> notes_record list \<Rightarrow> (nat \<times> pystr) option \<Rightarrow> pystr list \<Rightarrow> notes_record list" where
  "parse_loop skip hdr isph keep ph [] notes_data current_slide current_notes =
     save_slide ph notes_data current_slide current_notes"
| "parse_loop skip hdr isph keep ph (x # xs) notes_data current_slide current_notes =
     (if skip x then parse_loop skip hdr isph keep ph xs notes_data current_slide current_notes
      else case hdr x of
        Some m \<Rightarrow>
          parse_loop skip hdr isph keep ph xs
            (save_slide ph notes_data current_slide current_notes) (Some m) []
      | None \<Rightarrow>
          if current_slide \<noteq> None \<and> \<not> isph x
          then parse_loop skip hdr isph keep ph xs notes_data current_slide
                 (current_notes @ [keep x])
          else parse_loop skip hdr isph keep ph xs notes_data current_slide current_notes)"

text \<open>A record with its notes trimmed: what a round trip is expected to give back.\<close>

definition trimmed :: "notes_record \<Rightarrow> notes_record" where
  "trimmed r = r\<lparr>notes_text := strip (notes_text r)\<rparr>"

text \<open>
  The records that survive a round trip. A title has no line feed and no whitespace at
  its ends. A text is stored in a file as it is when it has no carriage return (reading
  turns it into a line feed) and no surrogate (writing raises on it). A line of the
  notes must not be taken by the parser for something else: a rule, a header, the
  placeholder; in Markdown also not for a document title or a horizontal rule. The text
  and Markdown parsers drop whitespace at the end of every line; the Word serializer
  trims every line, drops the blank ones and sanitizes titles and notes. (Carriage
  returns and surrogates are kept out of Word documents as well: an XML document does
  not hold them as they are.)
\<close>

definition title_ok :: "pystr \<Rightarrow> bool" where
  "title_ok t \<longleftrightarrow> 10 \<notin> set t \<and> strip t = t"

definition storable :: "pystr \<Rightarrow> bool" where
  "storable s \<longleftrightarrow> 13 \<notin> set s \<and> encodable s"

definition txt_line_ok :: "digits \<Rightarrow> pystr \<Rightarrow> bool" where
  "txt_line_ok dv l \<longleftrightarrow>
     rstrip l = l \<and> \<not> separator_pattern (strip l) \<and> slide_pattern dv (strip l) = None \<and>
     strip l \<noteq> ascii ''[No notes]''"

definition txt_ok :: "digits \<Rightarrow> notes_record \<Rightarrow> bool" where
  "txt_ok dv r \<longleftrightarrow>
     title_ok (slide_title r) \<and> storable (slide_title r) \<and> storable (notes_text r) \<and>
     list_all (txt_line_ok dv) (split_nl (notes_text r))"

definition md_line_ok :: "digits \<Rightarrow> pystr \<Rightarrow> bool" where
  "md_line_ok dv l \<longleftrightarrow>
     rstrip l = l \<and> take 2 (strip l) \<noteq> ascii ''# '' \<and> strip l \<noteq> ascii ''---'' \<and>
     md_slide_pattern dv (strip l) = None \<and> strip l \<noteq> ascii ''*[No notes]*''"

definition md_ok :: "digits \<Rightarrow> notes_record \<Rightarrow> bool" where
  "md_ok dv r \<longleftrightarrow>
     title_ok (slide_title r) \<and> storable (slide_title r) \<and> storable (notes_text r) \<and>
     list_all (md_line_ok dv) (split_nl (notes_text r))"

definition docx_line_ok :: "digits \<Rightarrow> pystr \<Rightarrow> bool" where
  "docx_line_ok dv l \<longleftrightarrow>
     l \<noteq> [] \<and> strip l = l \<and> \<not> separator_pattern l \<and> slide_pattern dv l = None \<and>
     l \<noteq> ascii ''[No notes]''"

definition docx_ok :: "digits \<Rightarrow> notes_record \<Rightarrow> bool" where
  "docx_ok dv r \<longleftrightarrow>
     title_ok (slide_title r) \<and> storable (slide_title r) \<and> storable (notes_text r) \<and>
     sanitize_text (slide_title r) = slide_title r \<and>
     sanitize_text (notes_text r) = notes_text r \<and>
     (notes_text r = [] \<or> list_all (docx_line_ok dv) (split_nl (notes_text r)))"

text \<open>The lines of the text file that come from one note, and those of the Markdown file.\<close>

definition txt_block :: "notes_record \<Rightarrow> pystr list" where
  "txt_block r = concat (map split_nl (txt_lines r))"

definition md_block :: "notes_record \<Rightarrow> pystr list" where
  "md_block r = concat (map split_nl (md_lines r))"

text \<open>
  Two snapshots for the examples: \<open>sample_notes\<close> survives every format;
  \<open>padded_notes\<close> has blank lines and a leading space, which the text formats trim.
\<close>

definition sample_notes :: "notes_record list" where
  "sample_notes =
     [\<lparr>slide_number = 12, slide_title = ascii ''Intro: a'',
       notes_text = ascii ''Hello'' @ [10] @ ascii ''big world''\<rparr>,
      \<lparr>slide_number = 3, slide_title = [], notes_text = []\<rparr>]"

definition padded_notes :: "notes_record list" where
  "padded_notes =
     [\<lparr>slide_number = 7, slide_title = ascii ''T'',
       notes_text = [10, 32] @ ascii ''Hello'' @ [10, 10] @ ascii ''world'' @ [10]\<rparr>]"

text \<open>
  A snapshot whose notes are trimmed. Every parser stores the trimmed text of a slide,
  so every snapshot the differ receives as \<open>edited\<close> is of this kind.
\<close>

definition stripped :: "notes_record list \<Rightarrow> bool" where
  "stripped ns \<longleftrightarrow> list_all (\<lambda>n. strip (notes_text n) = notes_text n) ns"


section \<open>Properties of the sanitizer and the differ\<close>

lemma in_delete_chars:
  "c \<in> set delete_chars \<longleftrightarrow> (c < 32 \<and> c \<noteq> 9 \<and> c \<noteq> 10 \<and> c \<noteq> 13) \<or> c = 127"
  by (auto simp: delete_chars_def)

text \<open>
  Claim C8. Sanitizing removes exactly the control characters 0x00-0x1F other than tab
  (9), line feed (10) and carriage return (13), and the delete character (127); every
  other character is kept, unchanged and in order.
\<close>

theorem sanitize_text_removes: "sanitize_text t = filter (\<lambda>c. \<not> (c < 32 \<and> c \<noteq> 9 \<and> c \<noteq> 10 \<and> c \<noteq> 13) \<and> c \<noteq> 127) t"
  by (simp add: sanitize_text_def in_delete_chars)

text \<open>
  Claim C9. Sanitizing is idempotent.
\<close>

theorem sanitize_text_idempotent: "sanitize_text (sanitize_text x) = sanitize_text x"
  by (simp add: sanitize_text_def)

lemma keys_dict_set:
  "map fst (dict_set d k v) = (if k \<in> fst ` set d then map fst d else map fst d @ [k])"
  by (induction d) force+

lemma map_of_dict_set:
  "map_of (dict_set d k v) j = (if j = k then Some v else map_of d j)"
  by (induction d) auto

lemma set_first_occurrences: "set (first_occurrences ks) = set ks"
  by (induction ks) auto

lemma distinct_first_occurrences: "distinct (first_occurrences ks)"
  by (induction ks) (auto simp: set_first_occurrences)

lemma keys_foldl:
  "map fst (foldl (\<lambda>d n. dict_set d (slide_number n) n) d ns) =
     map fst d @ filter (\<lambda>k. k \<notin> fst ` set d) (first_occurrences (map slide_number ns))"
proof (induction ns arbitrary: d)
  case Nil
  then show ?case by simp
next
  case (Cons n ns)
  have "set (map fst (dict_set d (slide_number n) n)) = insert (slide_number n) (fst ` set d)"
    by (auto simp: keys_dict_set)
  then have s: "fst ` set (dict_set d (slide_number n) n) = insert (slide_number n) (fst ` set d)"
    by simp
  show ?case
    by (auto simp: Cons.IH s keys_dict_set intro!: filter_cong)
qed

lemma map_of_foldl:
  "map_of (foldl (\<lambda>d n. dict_set d (slide_number n) n) d ns) k =
     (case last_with k ns of Some m \<Rightarrow> Some m | None \<Rightarrow> map_of d k)"
  by (induction ns arbitrary: d) (auto simp: map_of_dict_set split: option.splits)

lemma keys_by_slide: "map fst (by_slide ns) = first_occurrences (map slide_number ns)"
  by (simp add: by_slide_def keys_foldl)

lemma map_of_by_slide: "map_of (by_slide ns) k = last_with k ns"
  by (simp add: by_slide_def map_of_foldl split: option.splits)

lemma compare_loop_concat:
  "compare_loop obs items acc =
     acc @ concat (map (\<lambda>(k, n). compare_item (map_of obs k) k n) items)"
  by (induction obs items acc rule: compare_loop.induct) auto

lemma items_of_distinct:
  assumes "distinct (map fst d)"
  shows "d = map (\<lambda>k. (k, the (map_of d k))) (map fst d)"
proof -
  have "\<And>p. p \<in> set d \<Longrightarrow> (fst p, the (map_of d (fst p))) = p"
    using assms by (metis map_of_eq_Some_iff option.sel prod.collapse)
  then have "map (\<lambda>p. (fst p, the (map_of d (fst p)))) d = map (\<lambda>p. p) d"
    by (intro map_cong) auto
  then show ?thesis by (simp add: comp_def)
qed

lemma compare_notes_char:
  "compare_notes original edited =
     concat (map (\<lambda>k. case last_with k edited of
                        None \<Rightarrow> []
                      | Some e \<Rightarrow> compare_item (last_with k original) k e)
                 (first_occurrences (map slide_number edited)))"
proof -
  let ?d = "by_slide edited"
  have dist: "distinct (map fst ?d)"
    by (simp add: keys_by_slide distinct_first_occurrences)
  have "compare_notes original edited =
      concat (map (\<lambda>(k, n). compare_item (last_with k original) k n) ?d)"
    by (simp add: compare_notes_def compare_loop_concat map_of_by_slide)
  also have "\<dots> = concat (map (\<lambda>(k, n). compare_item (last_with k original) k n)
       (map (\<lambda>k. (k, the (map_of ?d k))) (map fst ?d)))"
    using items_of_distinct[OF dist] by simp
  also have "\<dots> = concat (map (\<lambda>k. case last_with k edited of
                        None \<Rightarrow> []
                      | Some e \<Rightarrow> compare_item (last_with k original) k e)
                 (first_occurrences (map slide_number edited)))"
  proof -
    have ne: "\<exists>y. last_with k edited = Some y"
      if "k \<in> set (first_occurrences (map slide_number edited))" for k
      using that map_of_by_slide[of edited] keys_by_slide[of edited]
      by (metis (no_types, lifting) domD dom_map_of_conv_image_fst list.set_map)
    have eq: "map (\<lambda>k. compare_item (last_with k original) k (the (last_with k edited)))
            (first_occurrences (map slide_number edited)) =
          map (\<lambda>k. case last_with k edited of
                        None \<Rightarrow> []
                      | Some e \<Rightarrow> compare_item (last_with k original) k e)
                 (first_occurrences (map slide_number edited))"
      by (intro map_cong) (auto dest!: ne)
    show ?thesis
      by (simp add: keys_by_slide map_of_by_slide comp_def eq)
  qed
  finally show ?thesis .
qed


lemma compare_item_short: "length (compare_item on k e) \<le> 1"
  by (auto simp: compare_item_def Let_def split: option.splits if_splits)

lemma compare_item_shape:
  "compare_item on k e = [] \<or> (\<exists>c. compare_item on k e = [c] \<and> ch_slide_number c = k)"
  by (simp add: compare_item_def Let_def split: option.splits)

lemma numbers_concat:
  assumes "\<And>k. f k = [] \<or> (\<exists>c. f k = [c] \<and> ch_slide_number c = k)"
  shows "map ch_slide_number (concat (map f ks)) = filter (\<lambda>k. f k \<noteq> []) ks"
proof (induction ks)
  case Nil
  show ?case by simp
next
  case (Cons k ks)
  from assms[of k] show ?case using Cons.IH by auto
qed

lemma compare_notes_numbers:
  "map ch_slide_number (compare_notes original edited) =
     filter (\<lambda>k. (case last_with k edited of
                        None \<Rightarrow> []
                      | Some e \<Rightarrow> compare_item (last_with k original) k e) \<noteq> [])
       (first_occurrences (map slide_number edited))"
  unfolding compare_notes_char
proof (rule numbers_concat)
  fix k
  show "(case last_with k edited of None \<Rightarrow> []
         | Some e \<Rightarrow> compare_item (last_with k original) k e) = [] \<or>
        (\<exists>c. (case last_with k edited of None \<Rightarrow> []
         | Some e \<Rightarrow> compare_item (last_with k original) k e) = [c] \<and> ch_slide_number c = k)"
    using compare_item_shape[of "last_with k original" k]
    by (cases "last_with k edited") auto
qed

lemma sorted_first_occurrences:
  "sorted ks \<Longrightarrow> sorted_wrt (<) (first_occurrences ks)"
proof (induction ks)
  case Nil
  show ?case by simp
next
  case (Cons k ks)
  then have "sorted_wrt (<) (first_occurrences ks)" by simp
  then have "sorted_wrt (<) (filter (\<lambda>j. j \<noteq> k) (first_occurrences ks))"
    by (rule sorted_wrt_filter)
  moreover have "\<forall>j \<in> set (filter (\<lambda>j. j \<noteq> k) (first_occurrences ks)). k < j"
    using Cons.prems by (auto simp: set_first_occurrences order_le_less)
  ultimately show ?case by simp
qed

text \<open>
  Claim C4, as amended. The changes come in the order in which their slide numbers first
  occur in the edited input (the insertion order of the lookup), not in ascending order;
  they are strictly ascending whenever the edited input is given in ascending order of
  slide number.
\<close>

theorem compare_notes_order:
  "subseq (map ch_slide_number (compare_notes original edited))
          (first_occurrences (map slide_number edited)) \<and>
   (sorted (map slide_number edited) \<longrightarrow>
      sorted_wrt (<) (map ch_slide_number (compare_notes original edited)))"
  by (auto simp: compare_notes_numbers dest!: sorted_first_occurrences intro: sorted_wrt_filter)

text \<open>The statement at an edited input in ascending order.\<close>

theorem compare_notes_order_witness:
  "sorted (map slide_number
      [\<lparr>slide_number = 1, slide_title = [], notes_text = [97]\<rparr>,
       \<lparr>slide_number = 2, slide_title = [], notes_text = [98]\<rparr>]) \<and>
   sorted_wrt (<) (map ch_slide_number (compare_notes []
      [\<lparr>slide_number = 1, slide_title = [], notes_text = [97]\<rparr>,
       \<lparr>slide_number = 2, slide_title = [], notes_text = [98]\<rparr>])) \<and>
   compare_notes []
      [\<lparr>slide_number = 1, slide_title = [], notes_text = [97]\<rparr>,
       \<lparr>slide_number = 2, slide_title = [], notes_text = [98]\<rparr>] \<noteq> []"
  using compare_notes_order[of "[]"
      "[\<lparr>slide_number = 1, slide_title = [], notes_text = [97]\<rparr>,
       \<lparr>slide_number = 2, slide_title = [], notes_text = [98]\<rparr>]"]
  by (simp add: compare_notes_def by_slide_def compare_item_def)

text \<open>
  Claim C4 as stated fails: with the edited records given as slide 2, then slide 1, the
  changes are those of slide 2, then slide 1.
\<close>

theorem compare_notes_unsorted_counterexample:
  "map ch_slide_number (compare_notes []
      [\<lparr>slide_number = 2, slide_title = [], notes_text = [98]\<rparr>,
       \<lparr>slide_number = 1, slide_title = [], notes_text = [97]\<rparr>]) = [2, 1] \<and>
   \<not> sorted (map ch_slide_number (compare_notes []
      [\<lparr>slide_number = 2, slide_title = [], notes_text = [98]\<rparr>,
       \<lparr>slide_number = 1, slide_title = [], notes_text = [97]\<rparr>]))"
  by (simp add: compare_notes_def by_slide_def compare_item_def)

text \<open>
  Claim C5. A slide number that occurs in the original and not in the edited input has no
  change record, whatever its original notes are.
\<close>

theorem compare_notes_absent:
  "k \<in> slide_number ` set original \<Longrightarrow> k \<notin> slide_number ` set edited \<Longrightarrow>
   k \<notin> ch_slide_number ` set (compare_notes original edited)"
proof -
  assume "k \<notin> slide_number ` set edited"
  moreover have "ch_slide_number ` set (compare_notes original edited) \<subseteq> slide_number ` set edited"
    using arg_cong[OF compare_notes_numbers[of original edited], of set]
    by (auto simp: set_first_occurrences)
  ultimately show ?thesis by blast
qed

text \<open>The statement at original slides 1 and 2 and an edited input with slide 1 only.\<close>

theorem compare_notes_absent_witness:
  "2 \<in> slide_number ` set
      [\<lparr>slide_number = 1, slide_title = [], notes_text = [97]\<rparr>,
       \<lparr>slide_number = 2, slide_title = [], notes_text = [98]\<rparr>] \<and>
   2 \<notin> slide_number ` set [\<lparr>slide_number = 1, slide_title = [], notes_text = [99]\<rparr>] \<and>
   2 \<notin> ch_slide_number ` set (compare_notes
      [\<lparr>slide_number = 1, slide_title = [], notes_text = [97]\<rparr>,
       \<lparr>slide_number = 2, slide_title = [], notes_text = [98]\<rparr>]
      [\<lparr>slide_number = 1, slide_title = [], notes_text = [99]\<rparr>]) \<and>
   compare_notes
      [\<lparr>slide_number = 1, slide_title = [], notes_text = [97]\<rparr>,
       \<lparr>slide_number = 2, slide_title = [], notes_text = [98]\<rparr>]
      [\<lparr>slide_number = 1, slide_title = [], notes_text = [99]\<rparr>] \<noteq> []"
  using compare_notes_absent[of 2
      "[\<lparr>slide_number = 1, slide_title = [], notes_text = [97]\<rparr>,
       \<lparr>slide_number = 2, slide_title = [], notes_text = [98]\<rparr>]"
      "[\<lparr>slide_number = 1, slide_title = [], notes_text = [99]\<rparr>]"]
  by (simp add: compare_notes_def by_slide_def compare_item_def strip_def lstrip_def rstrip_def is_space_def)

text \<open>
  Claim C10. The changes carry pairwise distinct slide numbers, and the comparison of a
  slide number uses the last record with that number of the edited list and the last
  record with that number (if any) of the original list; earlier records with the same
  number are ignored.
\<close>

theorem compare_notes_last_wins:
  "distinct (map ch_slide_number (compare_notes original edited)) \<and>
   compare_notes original edited =
     concat (map (\<lambda>k. case last_with k edited of
                        None \<Rightarrow> []
                      | Some e \<Rightarrow> compare_item (last_with k original) k e)
                 (first_occurrences (map slide_number edited)))"
proof
  show "distinct (map ch_slide_number (compare_notes original edited))"
    by (simp add: compare_notes_numbers distinct_first_occurrences)
  show "compare_notes original edited =
     concat (map (\<lambda>k. case last_with k edited of
                        None \<Rightarrow> []
                      | Some e \<Rightarrow> compare_item (last_with k original) k e)
                 (first_occurrences (map slide_number edited)))"
    by (rule compare_notes_char)
qed

section \<open>Properties of the applier\<close>

lemma set_notes_shapes_done:
  "snd (set_notes_shapes shapes new) = list_ex writable_body shapes"
  by (induction shapes) (auto simp: writable_body_def split: option.splits prod.splits)

lemma set_notes_shapes_keeps:
  "list_ex writable_body (fst (set_notes_shapes shapes new)) = list_ex writable_body shapes"
  by (induction shapes) (auto simp: writable_body_def split: option.splits prod.splits)

lemma apply_change_attempt:
  "attempt_of b (fst (apply_change b st ch)) n = attempt_of b (fst st) n"
proof (cases "slide_lookup b (fst st) (ch_slide_number ch)")
  case (Inl e)
  then show ?thesis by (simp add: apply_change_def Let_def)
next
  case (Inr shapes)
  obtain shapes' w where s: "set_notes_shapes shapes (edited_notes ch) = (shapes', w)"
    by (cases "set_notes_shapes shapes (edited_notes ch)")
  show ?thesis
  proof (cases w)
    case False
    with Inr s show ?thesis by (simp add: apply_change_def Let_def)
  next
    case True
    have k: "list_ex writable_body shapes' = list_ex writable_body shapes"
      using set_notes_shapes_keeps[of shapes "edited_notes ch"] s by simp
    from Inr have r: "1 \<le> ch_slide_number ch" "ch_slide_number ch \<le> length (fst st)"
      "notes_shapes (fst st ! (ch_slide_number ch - 1)) = Inr shapes"
      by (auto simp: slide_lookup_def split: if_splits)
    from True Inr s have f: "fst (apply_change b st ch) =
        (fst st)[ch_slide_number ch - 1 := \<lparr>notes_shapes = Inr shapes'\<rparr>]"
      by (simp add: apply_change_def Let_def)
    show ?thesis
      unfolding f attempt_of_def slide_lookup_def using r k
      by (cases "n - 1 = ch_slide_number ch - 1") (auto simp: nth_list_update)
  qed
qed

lemma apply_change_result:
  "snd (apply_change b st ch) =
     (case attempt_of b (fst st) (ch_slide_number ch) of
        Written \<Rightarrow> (snd st)\<lparr>applied := applied (snd st) @ [ch_slide_number ch]\<rparr>
      | Failed e \<Rightarrow> (snd st)\<lparr>errors := errors (snd st) @ [error_line (ch_slide_number ch) e]\<rparr>
      | Untouched \<Rightarrow> snd st)"
  using set_notes_shapes_done[of "projr (slide_lookup b (fst st) (ch_slide_number ch))" "edited_notes ch"]
  by (auto simp: apply_change_def attempt_of_def Let_def split: sum.splits prod.splits bool.splits)

lemma apply_loop_result:
  "snd (apply_loop b st changes) =
     \<lparr>applied = applied (snd st) @ written_numbers b (fst st) changes,
      skipped = skipped (snd st),
      errors = errors (snd st) @ failure_lines b (fst st) changes\<rparr>"
proof (induction changes arbitrary: st)
  case Nil
  show ?case by (simp add: written_numbers_def failure_lines_def)
next
  case (Cons ch changes)
  have a: "attempt_of b (fst (apply_change b st ch)) = attempt_of b (fst st)"
    by (rule ext) (rule apply_change_attempt)
  show ?case
    by (simp add: Cons.IH written_numbers_def failure_lines_def a apply_change_result
             split: attempt.splits)
qed

lemma apply_notes_outcome:
  assumes "has_com b" and "open_presentation b = Inr slides"
    and "select_changes changes allowed \<noteq> []"
  shows "apply_notes b changes allowed =
     (case save_error b of
        Some e \<Rightarrow> Inl (RuntimeError (ascii ''Failed to apply notes: '' @ e))
      | None \<Rightarrow>
          Inr (\<lparr>applied = written_numbers b slides (select_changes changes allowed),
                skipped = [],
                errors = failure_lines b slides (select_changes changes allowed)\<rparr>,
               Some (fst (apply_loop b (slides, \<lparr>applied = [], skipped = [], errors = []\<rparr>)
                            (select_changes changes allowed)))))"
proof -
  let ?st = "apply_loop b (slides, \<lparr>applied = [], skipped = [], errors = []\<rparr>)
               (select_changes changes allowed)"
  have "snd ?st = \<lparr>applied = written_numbers b slides (select_changes changes allowed),
                skipped = [],
                errors = failure_lines b slides (select_changes changes allowed)\<rparr>"
    by (simp add: apply_loop_result)
  moreover obtain s' r' where st: "?st = (s', r')" by (cases ?st)
  ultimately show ?thesis
    using assms by (simp add: apply_notes_def Let_def split: option.splits)
qed

lemma apply_notes_returns:
  assumes "apply_notes b changes allowed = Inr (r, saved)"
    and "select_changes changes allowed \<noteq> []"
  shows "has_com b \<and> (\<exists>slides. open_presentation b = Inr slides) \<and> save_error b = None"
  using assms
  by (auto simp: apply_notes_def Let_def split: if_splits sum.splits option.splits prod.splits)

text \<open>
  What a call returns that opens the deck with some change selected: the applied list
  and the errors list account for every selected change in order, a change whose slide,
  notes page or shapes cannot be reached adds the line \<open>Slide N: message\<close> and the loop
  goes on, and a failure of the one save after the loop is raised.
\<close>

lemma apply_notes_lists:
  assumes "has_com b" and "open_presentation b = Inr slides"
    and "select_changes changes allowed \<noteq> []"
  shows "(save_error b = None \<longrightarrow>
            (\<exists>r saved. apply_notes b changes allowed = Inr (r, saved) \<and>
               applied r = written_numbers b slides (select_changes changes allowed) \<and>
               errors r = failure_lines b slides (select_changes changes allowed))) \<and>
         (\<forall>e. save_error b = Some e \<longrightarrow>
            apply_notes b changes allowed =
              Inl (RuntimeError (ascii ''Failed to apply notes: '' @ e)))"
  using apply_notes_outcome[OF assms] by auto

text \<open>
  Claim C6, as amended. When the call returns a result, a change that passes the filter
  and whose slide number is not a slide of the deck is reported in the errors list, as
  \<open>Slide N: message\<close>, and not in the skipped list; and every slide number of the applied
  list is that of a change that passed the filter.
\<close>

theorem apply_notes_not_found:
  assumes "apply_notes b changes allowed = Inr (r, saved)"
    and "open_presentation b = Inr slides"
    and "c \<in> set (select_changes changes allowed)"
    and "\<not> (1 \<le> ch_slide_number c \<and> ch_slide_number c \<le> length slides)"
  shows "error_line (ch_slide_number c) (item_error b (ch_slide_number c)) \<in> set (errors r) \<and>
         ch_slide_number c \<notin> set (skipped r) \<and>
         set (applied r) \<subseteq> ch_slide_number ` set (select_changes changes allowed)"
proof -
  let ?sel = "select_changes changes allowed"
  from assms(3) have ne: "?sel \<noteq> []" by auto
  from apply_notes_returns[OF assms(1) ne] have hc: "has_com b" and sv: "save_error b = None"
    by auto
  from apply_notes_outcome[OF hc assms(2) ne] assms(1) sv
  have r: "r = \<lparr>applied = written_numbers b slides ?sel, skipped = [],
                errors = failure_lines b slides ?sel\<rparr>"
    by simp
  have f: "attempt_of b slides (ch_slide_number c) = Failed (item_error b (ch_slide_number c))"
    using assms(4) by (auto simp: attempt_of_def slide_lookup_def)
  have "error_line (ch_slide_number c) (item_error b (ch_slide_number c))
          \<in> set (failure_lines b slides ?sel)"
    unfolding failure_lines_def using assms(3) f by force
  moreover have "set (written_numbers b slides ?sel) \<subseteq> ch_slide_number ` set ?sel"
    unfolding written_numbers_def by (auto split: attempt.splits)
  ultimately show ?thesis by (simp add: r)
qed

lemmas apply_eval =
  apply_notes_def select_changes_def apply_change_def slide_lookup_def error_line_def
  ascii_def Let_def com_backend_def deck2_def deck_locked_def body_shape_def change_to_def
  decimal.simps

text \<open>
  Claim C6 as stated fails: on a deck of two slides, with changes for slides 1, 2 and 5
  and the filter \<open>[2, 5]\<close>, slide 1 is filtered out and slide 5 is not found, and the
  skipped list is empty.
\<close>

theorem apply_notes_skipped_counterexample:
  "apply_notes (com_backend deck2 None)
      [change_to 1 [97], change_to 2 [98], change_to 5 [99]] (Some [2, 5]) =
     Inr (\<lparr>applied = [2], skipped = [], errors = [ascii ''Slide 5: no such slide'']\<rparr>,
          Some [\<lparr>notes_shapes = Inr [body_shape True]\<rparr>,
                \<lparr>notes_shapes = Inr [(body_shape True)\<lparr>shape_text := [98]\<rparr>]\<rparr>])"
  by (simp add: apply_eval)

text \<open>
  Claim C7 at a deck whose notes placeholder refuses the text: the assignment raises
  inside the loop over the shapes, the bare \<^verbatim>\<open>except: continue\<close> there swallows the
  exception, and the call returns with slide 1 neither in the applied list nor in the
  errors list. The claim has the failure recorded in the errors list, as the handler of
  the loop over the changes does for every exception that reaches it.
\<close>

theorem apply_notes_swallowed_write:
  "apply_notes (com_backend deck_locked None) [change_to 1 [97]] None =
     Inr (\<lparr>applied = [], skipped = [], errors = []\<rparr>, Some deck_locked)"
  by (simp add: apply_eval)

text \<open>
  On a deck of two slides with changes for slides 1, 5 and 2: the call with a failing
  save raises, and the call with a save that succeeds applies slides 1 and 2 and reports
  slide 5.
\<close>

lemma apply_notes_lists_example:
  "has_com (com_backend deck2 (Some (ascii ''disk full''))) \<and>
   open_presentation (com_backend deck2 (Some (ascii ''disk full''))) = Inr deck2 \<and>
   select_changes [change_to 1 [97], change_to 5 [99], change_to 2 [98]] None \<noteq> [] \<and>
   apply_notes (com_backend deck2 (Some (ascii ''disk full'')))
       [change_to 1 [97], change_to 5 [99], change_to 2 [98]] None =
     Inl (RuntimeError (ascii ''Failed to apply notes: disk full'')) \<and>
   has_com (com_backend deck2 None) \<and>
   open_presentation (com_backend deck2 None) = Inr deck2 \<and>
   (\<exists>r saved. apply_notes (com_backend deck2 None)
       [change_to 1 [97], change_to 5 [99], change_to 2 [98]] None = Inr (r, saved) \<and>
      applied r = [1, 2] \<and> errors r = [ascii ''Slide 5: no such slide''])"
proof -
  let ?cs = "[change_to 1 [97], change_to 5 [99], change_to 2 [98]]"
  have a: "has_com (com_backend deck2 s)" "open_presentation (com_backend deck2 s) = Inr deck2" for s
    by (simp_all add: com_backend_def)
  have n: "select_changes ?cs None \<noteq> []" by (simp add: select_changes_def)
  have w: "written_numbers (com_backend deck2 None) deck2 (select_changes ?cs None) = [1, 2]"
    by (simp add: written_numbers_def attempt_of_def writable_body_def apply_eval)
  have f: "failure_lines (com_backend deck2 None) deck2 (select_changes ?cs None) =
      [ascii ''Slide 5: no such slide'']"
    by (simp add: failure_lines_def attempt_of_def writable_body_def apply_eval)
  have s1: "save_error (com_backend deck2 (Some (ascii ''disk full''))) = Some (ascii ''disk full'')"
    and s2: "save_error (com_backend deck2 None) = None"
    by (simp_all add: com_backend_def)
  from apply_notes_lists[OF a(1) a(2) n, of "Some (ascii ''disk full'')"] s1
  have "apply_notes (com_backend deck2 (Some (ascii ''disk full''))) ?cs None =
     Inl (RuntimeError (ascii ''Failed to apply notes: disk full''))"
    by (simp add: ascii_def)
  moreover from apply_notes_lists[OF a(1) a(2) n, of None] s2 w f
  have "\<exists>r saved. apply_notes (com_backend deck2 None) ?cs None = Inr (r, saved) \<and>
      applied r = [1, 2] \<and> errors r = [ascii ''Slide 5: no such slide'']"
    by simp
  ultimately show ?thesis using a n by simp
qed

text \<open>The statement at the change for slide 5 of the deck of two slides.\<close>

theorem apply_notes_not_found_witness:
  "apply_notes (com_backend deck2 None)
      [change_to 1 [97], change_to 2 [98], change_to 5 [99]] (Some [2, 5]) =
     Inr (\<lparr>applied = [2], skipped = [], errors = [ascii ''Slide 5: no such slide'']\<rparr>,
          Some [\<lparr>notes_shapes = Inr [body_shape True]\<rparr>,
                \<lparr>notes_shapes = Inr [(body_shape True)\<lparr>shape_text := [98]\<rparr>]\<rparr>]) \<and>
   open_presentation (com_backend deck2 None) = Inr deck2 \<and>
   change_to 5 [99] \<in> set (select_changes
      [change_to 1 [97], change_to 2 [98], change_to 5 [99]] (Some [2, 5])) \<and>
   \<not> (1 \<le> ch_slide_number (change_to 5 [99]) \<and> ch_slide_number (change_to 5 [99]) \<le> length deck2) \<and>
   error_line 5 (ascii ''no such slide'') \<in> set [ascii ''Slide 5: no such slide''] \<and>
   (5::nat) \<notin> set []"
proof -
  let ?cs = "[change_to 1 [97], change_to 2 [98], change_to 5 [99]]"
  let ?r = "\<lparr>applied = [2], skipped = [], errors = [ascii ''Slide 5: no such slide'']\<rparr>"
  have e: "apply_notes (com_backend deck2 None) ?cs (Some [2, 5]) =
     Inr (?r, Some [\<lparr>notes_shapes = Inr [body_shape True]\<rparr>,
                \<lparr>notes_shapes = Inr [(body_shape True)\<lparr>shape_text := [98]\<rparr>]\<rparr>])"
    by (simp add: apply_eval)
  have o: "open_presentation (com_backend deck2 None) = Inr deck2"
    by (simp add: com_backend_def)
  have m: "change_to 5 [99] \<in> set (select_changes ?cs (Some [2, 5]))"
    by (simp add: select_changes_def change_to_def)
  have nf: "\<not> (1 \<le> ch_slide_number (change_to 5 [99]) \<and>
                ch_slide_number (change_to 5 [99]) \<le> length deck2)"
    by (simp add: change_to_def deck2_def)
  from apply_notes_not_found[OF e o m nf]
  have "error_line (ch_slide_number (change_to 5 [99]))
          (item_error (com_backend deck2 None) (ch_slide_number (change_to 5 [99])))
          \<in> set (errors ?r) \<and> ch_slide_number (change_to 5 [99]) \<notin> set (skipped ?r)"
    by simp
  then have "error_line 5 (ascii ''no such slide'') \<in> set [ascii ''Slide 5: no such slide''] \<and>
      (5::nat) \<notin> set []"
    by (simp add: change_to_def com_backend_def)
  with e o m nf show ?thesis by simp
qed

section \<open>Properties of the serializers and parsers\<close>

text \<open>
  Claim C2, as amended. For a record with empty notes the text serializer writes the
  plain line \<open>[No notes]\<close>, the Markdown serializer writes \<open>*[No notes]*\<close> (the
  placeholder between Markdown's italic marks), and the Word serializer adds an italic
  paragraph with the text \<open>[No notes]\<close>.
\<close>

theorem placeholder_written:
  "notes_text n = [] \<Longrightarrow>
     txt_lines n =
       [header_text (slide_number n) (slide_title n), thin_rule, [],
        ascii ''[No notes]'', [], double_rule, []] \<and>
     md_lines n =
       [ascii ''## '' @ header_text (slide_number n) (slide_title n), [],
        ascii ''*[No notes]*'', [], ascii ''---'', []] \<and>
     docx_paragraphs n =
       [\<lparr>para_text = docx_header (slide_number n) (slide_title n),
         para_bold = True, para_italic = False\<rparr>,
        plain_para thin_rule,
        \<lparr>para_text = ascii ''[No notes]'', para_bold = False, para_italic = True\<rparr>,
        plain_para []]"
  by (simp add: txt_lines_def md_lines_def docx_paragraphs_def)

text \<open>The statement at one slide without title and notes, and the three files written.\<close>

theorem placeholder_written_witness:
  "notes_text \<lparr>slide_number = 1, slide_title = [], notes_text = []\<rparr> = [] \<and>
   export_to_txt [10] [\<lparr>slide_number = 1, slide_title = [], notes_text = []\<rparr>] =
     Inr (join_nl [ascii ''Slide 1'', thin_rule, [], ascii ''[No notes]'', [], double_rule, []]) \<and>
   export_to_md [10] [\<lparr>slide_number = 1, slide_title = [], notes_text = []\<rparr>] =
     Inr (join_nl [ascii ''# Speaker Notes'', [], ascii ''## Slide 1'', [],
                   ascii ''*[No notes]*'', [], ascii ''---'', []]) \<and>
   export_to_docx True [\<lparr>slide_number = 1, slide_title = [], notes_text = []\<rparr>] =
     Inr [\<lparr>para_text = ascii ''Slide 1'', para_bold = True, para_italic = False\<rparr>,
          plain_para thin_rule,
          \<lparr>para_text = ascii ''[No notes]'', para_bold = False, para_italic = True\<rparr>,
          plain_para []]"
  using placeholder_written[of "\<lparr>slide_number = 1, slide_title = [], notes_text = []\<rparr>"]
  by (simp add: export_to_txt_def export_to_md_def export_to_docx_def file_write_def
        encodable_def header_text_def docx_header_def ascii_def decimal.simps thin_rule_def
        double_rule_def sanitize_text_def list_all_iff)

text \<open>
  Claim C2 as stated fails: the body the Markdown serializer writes for a slide with
  empty notes is \<open>*[No notes]*\<close>, which is not the text \<open>[No notes]\<close>.
\<close>

theorem md_placeholder_counterexample:
  "export_to_md [10] [\<lparr>slide_number = 1, slide_title = [], notes_text = []\<rparr>] =
     Inr (join_nl [ascii ''# Speaker Notes'', [], ascii ''## Slide 1'', [],
                   ascii ''*[No notes]*'', [], ascii ''---'', []]) \<and>
   ascii ''*[No notes]*'' \<noteq> ascii ''[No notes]''"
  by (simp add: export_to_md_def md_lines_def file_write_def
        encodable_def header_text_def ascii_def decimal.simps)

subsection \<open>strip\<close>

lemma lstrip_id: "s = [] \<or> \<not> is_space (hd s) \<Longrightarrow> lstrip s = s"
  by (cases s) (auto simp: lstrip_def)

lemma rstrip_id: "s = [] \<or> \<not> is_space (last s) \<Longrightarrow> rstrip s = s"
  by (cases s rule: rev_cases) (auto simp: rstrip_def)

lemma strip_id: "s = [] \<or> (\<not> is_space (hd s) \<and> \<not> is_space (last s)) \<Longrightarrow> strip s = s"
  by (auto simp: strip_def lstrip_id rstrip_id)

lemma strip_Nil [simp]: "strip [] = []"
  by (simp add: strip_def lstrip_def rstrip_def)

lemma rstrip_Nil [simp]: "rstrip [] = []"
  by (simp add: rstrip_def)

lemma lstrip_spaces: "list_all is_space a \<Longrightarrow> lstrip (a @ s) = lstrip s"
  using dropWhile_append2[of a is_space s] by (auto simp: lstrip_def list_all_iff)

lemma rstrip_spaces: "list_all is_space b \<Longrightarrow> rstrip (s @ b) = rstrip s"
  using dropWhile_append2[of "rev b" is_space "rev s"] by (auto simp: rstrip_def list_all_iff)

lemma lstrip_append: "lstrip (s @ b) = (if list_all is_space s then lstrip b else lstrip s @ b)"
  by (auto simp: lstrip_def dropWhile_append list_all_iff)

lemma lstrip_all_spaces: "list_all is_space s \<Longrightarrow> lstrip s = []"
  by (simp add: lstrip_def list_all_iff)

lemma strip_pad:
  assumes "list_all is_space a" and "list_all is_space b"
  shows "strip (a @ s @ b) = strip s"
proof (cases "list_all is_space s")
  case True
  then have "list_all is_space (s @ b)" using assms by simp
  then show ?thesis using True assms
    by (simp add: strip_def lstrip_spaces lstrip_all_spaces)
next
  case False
  then show ?thesis using assms
    by (simp add: strip_def lstrip_spaces lstrip_append rstrip_spaces)
qed

lemma strip_decomp:
  "\<exists>a b. s = a @ strip s @ b \<and> list_all is_space a \<and> list_all is_space b"
proof -
  let ?x = "dropWhile is_space s"
  have 1: "s = takeWhile is_space s @ ?x" by simp
  have "rev ?x = takeWhile is_space (rev ?x) @ dropWhile is_space (rev ?x)" by simp
  then have "?x = rev (dropWhile is_space (rev ?x)) @ rev (takeWhile is_space (rev ?x))"
    by (metis rev_append rev_rev_ident)
  then have 2: "?x = strip s @ rev (takeWhile is_space (rev ?x))"
    by (simp add: strip_def lstrip_def rstrip_def)
  have 3: "list_all is_space (takeWhile is_space s)"
    by (auto simp: list_all_iff dest: set_takeWhileD)
  have 4: "list_all is_space (rev (takeWhile is_space (rev ?x)))"
    by (auto simp: list_all_iff dest: set_takeWhileD)
  from 1 2 have "s = takeWhile is_space s @ strip s @ rev (takeWhile is_space (rev ?x))"
    by metis
  with 3 4 show ?thesis by blast
qed

lemma strip_ends:
  assumes "strip s \<noteq> []"
  shows "\<not> is_space (hd (strip s)) \<and> \<not> is_space (last (strip s))"
proof -
  define x where "x = dropWhile is_space s"
  define y where "y = dropWhile is_space (rev x)"
  have s: "strip s = rev y" by (simp add: strip_def lstrip_def rstrip_def x_def y_def)
  with assms have y: "y \<noteq> []" by simp
  then have "\<not> is_space (hd y)" unfolding y_def by (rule hd_dropWhile)
  then have l: "\<not> is_space (last (strip s))" using y by (simp add: s last_rev)
  have x: "x \<noteq> []" using y unfolding y_def by auto
  then have hx: "\<not> is_space (hd x)" unfolding x_def by (rule hd_dropWhile)
  have "rev x = takeWhile is_space (rev x) @ y" unfolding y_def by simp
  then have "x = rev y @ rev (takeWhile is_space (rev x))"
    by (metis rev_append rev_rev_ident)
  then have "hd x = hd (rev y)" using y by (metis hd_append2 rev_is_Nil_conv)
  with hx l show ?thesis by (simp add: s)
qed

lemma strip_fixed_ends:
  "strip s = s \<Longrightarrow> s \<noteq> [] \<Longrightarrow> \<not> is_space (hd s) \<and> \<not> is_space (last s)"
  using strip_ends[of s] by simp

subsection \<open>lines\<close>

lemma split_nl_nonempty [simp]: "split_nl s \<noteq> []"
  by (induction s) (auto split: list.splits)

lemma split_nl_no_lf: "10 \<notin> set s \<Longrightarrow> split_nl s = [s]"
  by (induction s) auto

lemma split_nl_append: "split_nl (a @ 10 # b) = split_nl a @ split_nl b"
  by (induction a) (auto split: list.splits)

lemma join_nl_Cons: "ls \<noteq> [] \<Longrightarrow> join_nl (l # ls) = l @ 10 # join_nl ls"
  by (cases ls) auto

lemma join_nl_append:
  "a \<noteq> [] \<Longrightarrow> b \<noteq> [] \<Longrightarrow> join_nl (a @ b) = join_nl a @ 10 # join_nl b"
  by (induction a rule: join_nl.induct) (auto simp: join_nl_Cons)

lemma split_join: "ls \<noteq> [] \<Longrightarrow> split_nl (join_nl ls) = concat (map split_nl ls)"
  by (induction ls rule: join_nl.induct) (auto simp: split_nl_append simp del: split_nl.simps)

lemma join_split [simp]: "join_nl (split_nl s) = s"
proof (induction s)
  case Nil
  show ?case by simp
next
  case (Cons c s)
  obtain l ls where sp: "split_nl s = l # ls" by (cases "split_nl s") auto
  with Cons show ?case by (cases ls) (auto simp: join_nl_Cons)
qed

lemma line_of_padded:
  assumes "10 \<notin> set p"
  shows "\<exists>l \<in> set (split_nl (a @ p @ b)). \<exists>a' b'. l = a' @ p @ b' \<and>
           set a' \<subseteq> set a \<and> set b' \<subseteq> set b"
proof (induction a)
  case Nil
  have "\<exists>b'. hd (split_nl (p @ b)) = p @ b' \<and> set b' \<subseteq> set b" using assms
  proof (induction p)
    case Nil
    have "\<exists>b'. hd (split_nl b) = b' \<and> set b' \<subseteq> set b"
    proof (induction b)
      case Nil
      show ?case by simp
    next
      case (Cons c b)
      then show ?case by (cases "split_nl b") auto
    qed
    then show ?case by simp
  next
    case (Cons c p)
    then show ?case by (cases "split_nl (p @ b)") auto
  qed
  then obtain b' where "hd (split_nl (p @ b)) = p @ b'" "set b' \<subseteq> set b" by blast
  moreover have "hd (split_nl (p @ b)) \<in> set (split_nl (p @ b))" by simp
  ultimately show ?case by (metis append_Nil empty_subsetI empty_set)
next
  case (Cons c a)
  then obtain l a' b' where l: "l \<in> set (split_nl (a @ p @ b))" "l = a' @ p @ b'"
    "set a' \<subseteq> set a" "set b' \<subseteq> set b" by blast
  obtain l0 ls where sp: "split_nl (a @ p @ b) = l0 # ls" by (cases "split_nl (a @ p @ b)") auto
  show ?case
  proof (cases "c = 10")
    case True
    then have "l \<in> set (split_nl ((c # a) @ p @ b))" using l(1) by simp
    moreover have "set a' \<subseteq> set (c # a)" using l by auto
    ultimately show ?thesis using l by blast
  next
    case False
    show ?thesis
    proof (cases "l = l0")
      case True
      have "c # l \<in> set (split_nl ((c # a) @ p @ b))" using False sp True by simp
      moreover have "c # l = (c # a') @ p @ b'" using l by simp
      moreover have "set (c # a') \<subseteq> set (c # a)" using l by auto
      ultimately show ?thesis using l(4) by blast
    next
      case False
      with l sp have "l \<in> set ls" by auto
      then have "l \<in> set (split_nl ((c # a) @ p @ b))" using \<open>c \<noteq> 10\<close> sp by simp
      moreover have "set a' \<subseteq> set (c # a)" using l by auto
      ultimately show ?thesis using l by blast
    qed
  qed
qed

lemma strip_line_of:
  assumes "strip s = p" and "p \<noteq> []" and "10 \<notin> set p"
  shows "\<exists>l \<in> set (split_nl s). strip l = p"
proof -
  from strip_decomp[of s] assms(1) obtain a b where
    s: "s = a @ p @ b" and a: "list_all is_space a" and b: "list_all is_space b" by blast
  from line_of_padded[OF assms(3), of a b] s obtain l a' b' where
    l: "l \<in> set (split_nl s)" "l = a' @ p @ b'" "set a' \<subseteq> set a" "set b' \<subseteq> set b" by blast
  from a b l have "list_all is_space a'" "list_all is_space b'" by (auto simp: list_all_iff)
  then have "strip l = strip p" using l(2) by (simp add: strip_pad)
  also have "strip p = p" using strip_ends[of s] assms by (intro strip_id) simp
  finally show ?thesis using l(1) by blast
qed

subsection \<open>prefix runs\<close>

lemma run_append:
  "list_all P xs \<Longrightarrow> ys = [] \<or> \<not> P (hd ys) \<Longrightarrow>
   takeWhile P (xs @ ys) = xs \<and> dropWhile P (xs @ ys) = ys"
proof (induction xs)
  case Nil
  then show ?case by (cases ys) auto
next
  case (Cons x xs)
  then show ?case by simp
qed

lemma run_none: "xs = [] \<or> \<not> P (hd xs) \<Longrightarrow> takeWhile P xs = [] \<and> dropWhile P xs = xs"
  by (cases xs) auto

lemma run_all: "list_all P xs \<Longrightarrow> takeWhile P xs = xs \<and> dropWhile P xs = []"
  by (induction xs) auto

subsection \<open>decimal numerals\<close>

lemma decimal_digits: "list_all (\<lambda>c. 48 \<le> c \<and> c \<le> 57) (decimal n) \<and> decimal n \<noteq> []"
proof (induction n rule: decimal.induct)
  case (1 n)
  show ?case
  proof (cases "n < 10")
    case True
    then show ?thesis by (subst decimal.simps, subst (2) decimal.simps) simp
  next
    case False
    then have d: "decimal n = decimal (n div 10) @ [48 + n mod 10]"
      by (subst decimal.simps) simp
    have "n mod 10 < 10" by simp
    then have "48 + n mod 10 \<le> 57" by linarith
    with 1 False show ?thesis unfolding d by simp
  qed
qed

lemma digit_table_digit: "digit_table dv \<Longrightarrow> 48 \<le> c \<Longrightarrow> c \<le> 57 \<Longrightarrow> dv c = Some (c - 48)"
  by (simp add: digit_table_def)

lemma digit_table_other: "digit_table dv \<Longrightarrow> c < 48 \<or> (57 < c \<and> c < 128) \<Longrightarrow> dv c = None"
  by (auto simp: digit_table_def)

lemma digit_table_space: "digit_table dv \<Longrightarrow> is_space c \<Longrightarrow> \<not> is_digit dv c"
  by (simp add: digit_table_def is_digit_def)

lemma int_of_digits_snoc:
  "int_of_digits dv (ds @ [c]) =
     10 * int_of_digits dv ds + (case dv c of Some v \<Rightarrow> v | None \<Rightarrow> 0)"
  by (simp add: int_of_digits_def)

lemma int_of_decimal: "digit_table dv \<Longrightarrow> int_of_digits dv (decimal n) = n"
proof (induction n rule: decimal.induct)
  case (1 n)
  show ?case
  proof (cases "n < 10")
    case True
    then have "decimal n = [48 + n]" by (subst decimal.simps) simp
    moreover have "dv (48 + n) = Some n"
      using digit_table_digit[OF "1.prems", of "48 + n"] True by simp
    ultimately show ?thesis by (simp add: int_of_digits_def)
  next
    case False
    then have d: "decimal n = decimal (n div 10) @ [48 + n mod 10]"
      by (subst decimal.simps) simp
    have "n mod 10 < 10" by simp
    then have "48 + n mod 10 \<le> 57" by linarith
    then have "dv (48 + n mod 10) = Some (n mod 10)"
      using digit_table_digit[OF "1.prems", of "48 + n mod 10"] by simp
    with 1 False show ?thesis unfolding d by (simp add: int_of_digits_snoc)
  qed
qed

lemma decimal_run:
  assumes "digit_table dv"
  shows "list_all (is_digit dv) (decimal n)"
proof -
  have "is_digit dv c" if "c \<in> set (decimal n)" for c
  proof -
    from that decimal_digits[of n] have "48 \<le> c" "c \<le> 57" by (auto simp: list_all_iff)
    from digit_table_digit[OF assms this] show ?thesis by (simp add: is_digit_def)
  qed
  then show ?thesis by (simp add: list_all_iff)
qed

lemma decimal_hd: "\<not> is_space (hd (decimal n))"
proof -
  from decimal_digits[of n] have "hd (decimal n) \<in> set (decimal n)" by simp
  with decimal_digits[of n] have "48 \<le> hd (decimal n) \<and> hd (decimal n) \<le> 57"
    by (auto simp: list_all_iff)
  then show ?thesis by (auto simp: is_space_def)
qed

lemma decimal_last: "\<not> is_space (last (decimal n))"
proof -
  from decimal_digits[of n] have "last (decimal n) \<in> set (decimal n)" by simp
  with decimal_digits[of n] have "48 \<le> last (decimal n) \<and> last (decimal n) \<le> 57"
    by (auto simp: list_all_iff)
  then show ?thesis by (auto simp: is_space_def)
qed

subsection \<open>the header line\<close>

lemma ascii_Slide: "ascii ''Slide '' = [83, 108, 105, 100, 101, 32]"
  by (simp add: ascii_def)

lemma ascii_colon: "ascii '': '' = [58, 32]"
  by (simp add: ascii_def)

lemma word_match_Slide: "word_match (ascii ''slide'') (ascii ''Slide '' @ x) = Some (32 # x)"
  by (simp add: ascii_def letter_match_def)

lemma slide_pattern_number:
  assumes "digit_table dv"
  shows "slide_pattern dv (ascii ''Slide '' @ decimal n) = Some (n, [])"
proof -
  have s: "takeWhile is_space (32 # decimal n) = [32]" "dropWhile is_space (32 # decimal n) = decimal n"
    using run_none[of "decimal n" is_space] decimal_hd[of n] by (simp_all add: is_space_def)
  have d: "takeWhile (is_digit dv) (decimal n) = decimal n" "dropWhile (is_digit dv) (decimal n) = []"
    using run_all[OF decimal_run[OF assms, of n]] by simp_all
  show ?thesis
    using decimal_digits[of n] word_match_Slide[of "decimal n"]
    by (simp add: slide_pattern_def s d at_end_def int_of_decimal[OF assms] del: takeWhile.simps dropWhile.simps)
qed

lemma slide_pattern_title:
  assumes "digit_table dv" and "t \<noteq> []" and "\<not> is_space (hd t)" and "10 \<notin> set t"
  shows "slide_pattern dv (ascii ''Slide '' @ decimal n @ ascii '': '' @ t) = Some (n, t)"
proof -
  let ?tail = "58 # 32 # t"
  have nd: "\<not> is_digit dv 58"
    using digit_table_other[OF assms(1), of 58] by (simp add: is_digit_def)
  have hs: "\<not> is_space (hd (decimal n @ ?tail))"
    using decimal_hd[of n] decimal_digits[of n] by simp
  have s: "takeWhile is_space (32 # decimal n @ ?tail) = [32]"
    "dropWhile is_space (32 # decimal n @ ?tail) = decimal n @ ?tail"
    using run_none[of "decimal n @ ?tail" is_space] hs by (simp_all add: is_space_def)
  have d: "takeWhile (is_digit dv) (decimal n @ ?tail) = decimal n"
    "dropWhile (is_digit dv) (decimal n @ ?tail) = ?tail"
    using run_append[OF decimal_run[OF assms(1), of n], of ?tail] nd by simp_all
  have w: "dropWhile is_space (32 # t) = t"
    using run_none[of t is_space] assms(3) by (simp add: is_space_def)
  have l: "takeWhile (\<lambda>c. c \<noteq> 10) t = t" "dropWhile (\<lambda>c. c \<noteq> 10) t = []"
    using run_all[of "\<lambda>c. c \<noteq> 10" t] assms(4) by (auto simp: list_all_iff)
  have "slide_pattern dv (ascii ''Slide '' @ decimal n @ ?tail) = Some (n, t)"
    using decimal_digits[of n] word_match_Slide[of "decimal n @ ?tail"]
    by (simp add: slide_pattern_def s d w l at_end_def int_of_decimal[OF assms(1)] assms(4)
             del: takeWhile.simps dropWhile.simps)
  then show ?thesis by (simp add: ascii_colon)
qed

lemma slide_pattern_header:
  assumes "digit_table dv" and "10 \<notin> set t" and "strip t = t"
  shows "slide_pattern dv (header_text n t) = Some (n, t)"
proof (cases "t = []")
  case True
  then show ?thesis by (simp add: header_text_def slide_pattern_number[OF assms(1)])
next
  case False
  with strip_fixed_ends[OF assms(3)] have "\<not> is_space (hd t)" by simp
  with False show ?thesis
    by (simp add: header_text_def slide_pattern_title[OF assms(1) _ _ assms(2)])
qed

lemma header_text_hd: "header_text n t = 83 # tl (header_text n t)"
  by (simp add: header_text_def ascii_Slide)

lemma header_text_strip:
  assumes "strip t = t"
  shows "strip (header_text n t) = header_text n t"
proof (rule strip_id, rule disjI2, rule conjI)
  show "\<not> is_space (hd (header_text n t))"
    by (subst header_text_hd) (simp add: is_space_def)
  show "\<not> is_space (last (header_text n t))"
  proof (cases "t = []")
    case True
    then show ?thesis using decimal_last[of n] decimal_digits[of n]
      by (simp add: header_text_def)
  next
    case False
    with strip_fixed_ends[OF assms] show ?thesis by (simp add: header_text_def)
  qed
qed

lemma header_text_no_lf: "10 \<notin> set t \<Longrightarrow> 10 \<notin> set (header_text n t)"
  using decimal_digits[of n] by (auto simp: header_text_def ascii_def list_all_iff)

subsection \<open>the rules\<close>

lemma rule_strip: "strip thin_rule = thin_rule" "strip double_rule = double_rule"
  by (rule strip_id, simp add: thin_rule_def double_rule_def is_space_def)+

lemma rule_separator: "separator_pattern thin_rule" "separator_pattern double_rule"
proof -
  have "list_all is_rule thin_rule" "list_all is_rule double_rule"
    by (simp_all add: thin_rule_def double_rule_def is_rule_def list_all_iff)
  from run_all[OF this(1)] run_all[OF this(2)]
  show "separator_pattern thin_rule" "separator_pattern double_rule"
    by (simp_all add: separator_pattern_def at_end_def) (simp_all add: thin_rule_def double_rule_def)
qed

lemma not_separator: "s = [] \<or> \<not> is_rule (hd s) \<Longrightarrow> \<not> separator_pattern s"
  using run_none[of s is_rule] by (simp add: separator_pattern_def)

lemma rule_no_lf: "10 \<notin> set thin_rule" "10 \<notin> set double_rule"
  by (simp_all add: thin_rule_def double_rule_def)

subsection \<open>the file\<close>

lemma file_read_Cons: "c \<noteq> 13 \<Longrightarrow> file_read (c # xs) = c # file_read xs"
  by (cases xs) auto

lemma file_read_crlf: "file_read (13 # 10 # xs) = 10 # file_read xs"
  by simp

lemma file_read_written:
  assumes "linesep = [10] \<or> linesep = [13, 10]" and "13 \<notin> set s"
  shows "file_read (concat (map (\<lambda>c. if c = 10 then linesep else [c]) s)) = s"
  using assms(2)
proof (induction s)
  case Nil
  show ?case by simp
next
  case (Cons c s)
  then show ?case using assms(1)
    by (auto simp: file_read_Cons file_read_crlf simp del: file_read.simps)
qed

lemma file_round_trip:
  assumes "linesep = [10] \<or> linesep = [13, 10]" and "13 \<notin> set s" and "encodable s"
  shows "\<exists>f. file_write linesep s = Inr f \<and> file_read f = s"
  using assms file_read_written[OF assms(1,2)] by (simp add: file_write_def)

subsection \<open>the shape of the loops\<close>

lemma parse_txt_loop_shape:
  "parse_txt_loop dv ls nd cur cn =
     parse_loop (\<lambda>l. separator_pattern (strip l)) (\<lambda>l. slide_pattern dv (strip l))
       (\<lambda>l. strip l = ascii ''[No notes]'') rstrip (ascii ''[No notes]'') ls nd cur cn"
  by (induction ls arbitrary: nd cur cn) (simp_all add: Let_def cong: option.case_cong)

lemma parse_md_loop_shape:
  "parse_md_loop dv ls nd cur cn =
     parse_loop (\<lambda>l. take 2 (strip l) = ascii ''# '' \<or> strip l = ascii ''---'')
       (\<lambda>l. md_slide_pattern dv (strip l))
       (\<lambda>l. strip l = ascii ''*[No notes]*'') rstrip (ascii ''*[No notes]*'') ls nd cur cn"
  by (induction ls arbitrary: nd cur cn) (simp_all add: Let_def cong: option.case_cong)

lemma parse_docx_loop_shape:
  "parse_docx_loop dv ps nd cur cn =
     parse_loop (\<lambda>p. strip (para_text p) = [] \<or> separator_pattern (strip (para_text p)))
       (\<lambda>p. slide_pattern dv (strip (para_text p)))
       (\<lambda>p. strip (para_text p) = ascii ''[No notes]'') (\<lambda>p. strip (para_text p))
       (ascii ''[No notes]'') ps nd cur cn"
  by (induction ps arbitrary: nd cur cn) (simp_all add: Let_def cong: option.case_cong)

lemma save_slide_append: "save_slide ph nd cur cn = nd @ save_slide ph [] cur cn"
  by (simp add: save_slide_def Let_def split: option.splits)

lemma parse_loop_closed:
  assumes "list_all (\<lambda>x. skip x \<or> hdr x = None) xs"
  shows "parse_loop skip hdr isph keep ph (xs @ rest) nd None cn =
         parse_loop skip hdr isph keep ph rest nd None cn"
  using assms by (induction xs) auto

lemma parse_loop_body:
  assumes "list_all (\<lambda>x. skip x \<or> hdr x = None) xs"
  shows "parse_loop skip hdr isph keep ph (xs @ rest) nd (Some m) cn =
         parse_loop skip hdr isph keep ph rest nd (Some m)
           (cn @ map keep (filter (\<lambda>x. \<not> skip x \<and> \<not> isph x) xs))"
  using assms by (induction xs arbitrary: cn) auto

lemma parse_loop_block:
  assumes "\<not> skip h" and "hdr h = Some m" and "list_all (\<lambda>x. skip x \<or> hdr x = None) bs"
  shows "parse_loop skip hdr isph keep ph (h # bs @ rest) nd cur cn =
         parse_loop skip hdr isph keep ph rest (save_slide ph nd cur cn) (Some m)
           (map keep (filter (\<lambda>x. \<not> skip x \<and> \<not> isph x) bs))"
  using assms(1,2) parse_loop_body[OF assms(3), of isph keep ph rest _ m "[]"] by simp

lemma parse_loop_blocks:
  assumes "\<And>r. r \<in> set rs \<Longrightarrow>
      \<exists>h bs m. blk r = h # bs \<and> \<not> skip h \<and> hdr h = Some m \<and>
        list_all (\<lambda>x. skip x \<or> hdr x = None) bs \<and>
        save_slide ph [] (Some m) (map keep (filter (\<lambda>x. \<not> skip x \<and> \<not> isph x) bs)) = [out r]"
  shows "parse_loop skip hdr isph keep ph (concat (map blk rs)) nd cur cn =
         save_slide ph nd cur cn @ map out rs"
  using assms
proof (induction rs arbitrary: nd cur cn)
  case Nil
  show ?case by simp
next
  case (Cons r rs)
  from Cons.prems[of r] obtain h bs m where
    b: "blk r = h # bs" "\<not> skip h" "hdr h = Some m"
       "list_all (\<lambda>x. skip x \<or> hdr x = None) bs"
       "save_slide ph [] (Some m) (map keep (filter (\<lambda>x. \<not> skip x \<and> \<not> isph x) bs)) = [out r]"
    by auto
  have "parse_loop skip hdr isph keep ph (concat (map blk (r # rs))) nd cur cn =
        parse_loop skip hdr isph keep ph (h # bs @ concat (map blk rs)) nd cur cn"
    by (simp add: b(1))
  also have "\<dots> = parse_loop skip hdr isph keep ph (concat (map blk rs))
        (save_slide ph nd cur cn) (Some m)
        (map keep (filter (\<lambda>x. \<not> skip x \<and> \<not> isph x) bs))"
    by (rule parse_loop_block[OF b(2,3,4)])
  also have "\<dots> = save_slide ph (save_slide ph nd cur cn) (Some m)
        (map keep (filter (\<lambda>x. \<not> skip x \<and> \<not> isph x) bs)) @ map out rs"
    using Cons.prems by (intro Cons.IH) auto
  also have "\<dots> = save_slide ph nd cur cn @ map out (r # rs)"
    using b(5) by (subst save_slide_append) simp
  finally show ?case .
qed

subsection \<open>what a file holds\<close>

lemma storable_iff: "storable s \<longleftrightarrow> list_all (\<lambda>c. c \<noteq> 13 \<and> \<not> (55296 \<le> c \<and> c \<le> 57343)) s"
  by (auto simp: storable_def encodable_def list_all_iff)

lemma storable_append [simp]: "storable (a @ b) \<longleftrightarrow> storable a \<and> storable b"
  by (auto simp: storable_iff)

lemma storable_Nil [simp]: "storable []"
  by (simp add: storable_iff)

lemma storable_join: "list_all storable ls \<Longrightarrow> storable (join_nl ls)"
  by (induction ls rule: join_nl.induct) (auto simp: storable_iff)

lemma storable_decimal: "storable (decimal n)"
  using decimal_digits[of n] by (auto simp: storable_iff list_all_iff)

lemma storable_header: "storable t \<Longrightarrow> storable (header_text n t)"
  by (simp add: header_text_def storable_decimal) (simp add: storable_iff ascii_def)

lemma storable_rules: "storable thin_rule" "storable double_rule"
  by (simp_all add: storable_iff thin_rule_def double_rule_def list_all_iff)

lemma storable_split: "storable s \<Longrightarrow> list_all storable (split_nl s)"
proof (induction s)
  case Nil
  show ?case by simp
next
  case (Cons c s)
  from Cons.prems have c: "storable [c]" and s: "storable s"
    using storable_append[of "[c]" s] by simp_all
  from Cons.IH[OF s] c show ?case
    using storable_append[of "[c]"] by (cases "split_nl s") auto
qed

lemma file_round_trip_storable:
  assumes "linesep = [10] \<or> linesep = [13, 10]" and "storable s"
  shows "\<exists>f. file_write linesep s = Inr f \<and> file_read f = s"
  using file_round_trip[OF assms(1)] assms(2) by (simp add: storable_def)

subsection \<open>the buffer of a slide\<close>

lemma join_padded:
  "join_nl ([] # split_nl s @ [[], []]) = 10 # s @ [10, 10]"
proof -
  have "join_nl (split_nl s @ [[], []]) = join_nl (split_nl s) @ 10 # join_nl [[], []]"
    by (rule join_nl_append) simp_all
  then show ?thesis by (simp add: join_nl_Cons)
qed

lemma strip_padded: "strip (10 # s @ [10, 10]) = strip s"
  using strip_pad[of "[10]" "[10, 10]" s] by (simp add: is_space_def)

lemma save_slide_Some:
  "save_slide ph [] (Some (n, t)) cn =
     [\<lparr>slide_number = n, slide_title = t,
       notes_text = (if strip (join_nl cn) = ph then [] else strip (join_nl cn))\<rparr>]"
  by (simp add: save_slide_def Let_def)

lemma concat_map_concat:
  "concat (map f (concat xss)) = concat (map (\<lambda>xs. concat (map f xs)) xss)"
  by (induction xss) auto

subsection \<open>text files\<close>

lemma ascii_placeholder: "ascii ''[No notes]'' = [91, 78, 111, 32, 110, 111, 116, 101, 115, 93]"
  by (simp add: ascii_def)

lemma placeholder_facts:
  "strip (ascii ''[No notes]'') = ascii ''[No notes]''"
  "slide_pattern dv (ascii ''[No notes]'') = None"
  "\<not> separator_pattern (ascii ''[No notes]'')"
  "10 \<notin> set (ascii ''[No notes]'')"
  "ascii ''[No notes]'' \<noteq> []"
  "storable (ascii ''[No notes]'')"
proof -
  show "strip (ascii ''[No notes]'') = ascii ''[No notes]''"
    by (rule strip_id) (simp add: ascii_placeholder is_space_def)
  show "slide_pattern dv (ascii ''[No notes]'') = None"
    by (simp add: slide_pattern_def ascii_def letter_match_def)
  show "\<not> separator_pattern (ascii ''[No notes]'')"
    by (rule not_separator) (simp add: ascii_placeholder is_rule_def)
  show "10 \<notin> set (ascii ''[No notes]'')" "ascii ''[No notes]'' \<noteq> []"
    "storable (ascii ''[No notes]'')"
    by (simp_all add: ascii_placeholder storable_iff)
qed

lemma empty_line_facts:
  "slide_pattern dv [] = None" "\<not> separator_pattern []"
  by (simp_all add: slide_pattern_def ascii_def separator_pattern_def)

lemma header_not_separator: "\<not> separator_pattern (header_text n t)"
  by (rule not_separator, subst header_text_hd) (simp add: is_rule_def)

lemma txt_block_eq:
  assumes "title_ok (slide_title r)"
  shows "txt_block r =
     header_text (slide_number r) (slide_title r) #
       ([thin_rule, []] @
        split_nl (if notes_text r \<noteq> [] then notes_text r else ascii ''[No notes]'') @
        [[], double_rule, []])"
  using assms header_text_no_lf[of "slide_title r" "slide_number r"]
  by (simp add: txt_block_def txt_lines_def title_ok_def split_nl_no_lf rule_no_lf
           del: split_nl.simps)

lemma notes_not_placeholder:
  assumes "\<And>l. l \<in> set (split_nl s) \<Longrightarrow> strip l \<noteq> ph" and "ph \<noteq> []" and "10 \<notin> set ph"
  shows "strip s \<noteq> ph"
  using strip_line_of[of s ph] assms by blast

lemma rule_hd: "hd thin_rule = 9472" "hd double_rule = 9552" "thin_rule \<noteq> []" "double_rule \<noteq> []"
  by (simp_all add: thin_rule_def double_rule_def)

lemma rule_not_placeholder:
  "thin_rule \<noteq> ascii ''[No notes]''" "double_rule \<noteq> ascii ''[No notes]''"
proof -
  have "hd thin_rule \<noteq> hd (ascii ''[No notes]'')" "hd double_rule \<noteq> hd (ascii ''[No notes]'')"
    by (simp_all add: rule_hd ascii_placeholder)
  then show "thin_rule \<noteq> ascii ''[No notes]''" "double_rule \<noteq> ascii ''[No notes]''"
    by auto
qed

lemma txt_frame_inert:
  "list_all (\<lambda>x. separator_pattern (strip x) \<or> slide_pattern dv (strip x) = None) body \<Longrightarrow>
   list_all (\<lambda>x. separator_pattern (strip x) \<or> slide_pattern dv (strip x) = None)
     ([thin_rule, []] @ body @ [[], double_rule, []])"
  by (simp add: rule_strip rule_separator empty_line_facts)

lemma txt_frame_kept:
  "map rstrip (filter (\<lambda>x. \<not> separator_pattern (strip x) \<and> \<not> strip x = ascii ''[No notes]'')
      ([thin_rule, []] @ body @ [[], double_rule, []])) =
   [] # map rstrip (filter (\<lambda>x. \<not> separator_pattern (strip x) \<and> \<not> strip x = ascii ''[No notes]'') body)
      @ [[], []]"
  using placeholder_facts(5)
  by (simp add: rule_strip rule_separator empty_line_facts)

lemma txt_block_parses:
  assumes dv: "digit_table dv" and ok: "txt_ok dv r"
  shows "\<exists>h bs m. txt_block r = h # bs \<and> \<not> separator_pattern (strip h) \<and>
        slide_pattern dv (strip h) = Some m \<and>
        list_all (\<lambda>x. separator_pattern (strip x) \<or> slide_pattern dv (strip x) = None) bs \<and>
        save_slide (ascii ''[No notes]'') [] (Some m)
          (map rstrip (filter (\<lambda>x. \<not> separator_pattern (strip x) \<and>
                                   \<not> strip x = ascii ''[No notes]'') bs)) = [trimmed r]"
proof -
  let ?ph = "ascii ''[No notes]''"
  let ?h = "header_text (slide_number r) (slide_title r)"
  let ?body = "split_nl (if notes_text r \<noteq> [] then notes_text r else ?ph)"
  let ?bs = "[thin_rule, []] @ ?body @ [[], double_rule, []]"
  let ?keep = "\<lambda>x. \<not> separator_pattern (strip x) \<and> \<not> strip x = ?ph"
  from ok have t: "title_ok (slide_title r)" and
    ls: "list_all (txt_line_ok dv) (split_nl (notes_text r))"
    by (simp_all add: txt_ok_def)
  from t have st: "strip (slide_title r) = slide_title r" and nl: "10 \<notin> set (slide_title r)"
    by (simp_all add: title_ok_def)
  have hs: "strip ?h = ?h" by (rule header_text_strip[OF st])
  have 1: "txt_block r = ?h # ?bs" by (rule txt_block_eq[OF t])
  have 2: "\<not> separator_pattern (strip ?h)" by (simp add: hs header_not_separator)
  have 3: "slide_pattern dv (strip ?h) = Some (slide_number r, slide_title r)"
    by (simp add: hs slide_pattern_header[OF dv nl st])
  have body: "list_all (\<lambda>x. separator_pattern (strip x) \<or> slide_pattern dv (strip x) = None) ?body"
  proof (cases "notes_text r = []")
    case True
    have "?body = [?ph]" using True by (simp add: split_nl_no_lf placeholder_facts)
    then show ?thesis by (simp add: placeholder_facts)
  next
    case False
    with ls show ?thesis by (auto simp: list_all_iff txt_line_ok_def)
  qed
  have 4: "list_all (\<lambda>x. separator_pattern (strip x) \<or> slide_pattern dv (strip x) = None) ?bs"
    by (rule txt_frame_inert[OF body])
  have kept: "map rstrip (filter ?keep ?body) =
      (if notes_text r \<noteq> [] then split_nl (notes_text r) else [])"
  proof (cases "notes_text r = []")
    case True
    have "?body = [?ph]" using True by (simp add: split_nl_no_lf placeholder_facts)
    then show ?thesis using True by (simp add: placeholder_facts)
  next
    case False
    have "filter ?keep (split_nl (notes_text r)) = split_nl (notes_text r)"
      using ls by (auto simp: list_all_iff txt_line_ok_def)
    moreover have "map rstrip (split_nl (notes_text r)) = split_nl (notes_text r)"
      using ls by (auto simp: list_all_iff txt_line_ok_def intro: map_idI)
    ultimately show ?thesis using False by simp
  qed
  have 5: "save_slide ?ph [] (Some (slide_number r, slide_title r))
      (map rstrip (filter ?keep ?bs)) = [trimmed r]"
  proof (cases "notes_text r = []")
    case True
    have "strip (join_nl [[], [], []]) = []"
      using strip_pad[of "[10, 10]" "[]" "[]"] by (simp add: is_space_def)
    then show ?thesis unfolding txt_frame_kept kept using True
      by (simp add: save_slide_Some trimmed_def placeholder_facts)
  next
    case False
    have "strip (notes_text r) \<noteq> ?ph"
    proof (rule notes_not_placeholder)
      fix l assume "l \<in> set (split_nl (notes_text r))"
      with ls show "strip l \<noteq> ?ph" by (auto simp: list_all_iff txt_line_ok_def)
    qed (simp_all add: placeholder_facts)
    then show ?thesis unfolding txt_frame_kept kept using False
      by (simp add: save_slide_Some trimmed_def join_padded strip_padded
               del: split_nl.simps join_nl.simps)
  qed
  show ?thesis
    by (rule exI[of _ ?h], rule exI[of _ ?bs], rule exI[of _ "(slide_number r, slide_title r)"])
       (intro conjI 1 2 3 4 5)
qed

lemma txt_content_storable:
  assumes "list_all (txt_ok dv) rs"
  shows "storable (join_nl (concat (map txt_lines rs)))"
proof (rule storable_join)
  have "list_all storable (txt_lines r)" if "txt_ok dv r" for r
    using that
    by (simp add: txt_ok_def txt_lines_def storable_header storable_rules placeholder_facts)
  then show "list_all storable (concat (map txt_lines rs))"
    using assms by (auto simp: list_all_iff)
qed

lemma parse_txt_content:
  assumes dv: "digit_table dv" and ok: "list_all (txt_ok dv) rs"
  shows "parse_txt_loop dv (split_nl (join_nl (concat (map txt_lines rs)))) [] None [] =
         map trimmed rs"
proof (cases "rs = []")
  case True
  then show ?thesis
    by (simp add: empty_line_facts save_slide_def)
next
  case False
  then have ne: "concat (map txt_lines rs) \<noteq> []"
    by (cases rs) (simp_all add: txt_lines_def)
  have "split_nl (join_nl (concat (map txt_lines rs))) = concat (map txt_block rs)"
    by (simp add: split_join[OF ne] concat_map_concat txt_block_def[abs_def] comp_def)
  moreover have "parse_loop (\<lambda>l. separator_pattern (strip l)) (\<lambda>l. slide_pattern dv (strip l))
       (\<lambda>l. strip l = ascii ''[No notes]'') rstrip (ascii ''[No notes]'')
       (concat (map txt_block rs)) [] None [] =
       save_slide (ascii ''[No notes]'') [] None [] @ map trimmed rs"
  proof (rule parse_loop_blocks)
    fix r assume "r \<in> set rs"
    with ok have "txt_ok dv r" by (simp add: list_all_iff)
    from txt_block_parses[OF dv this]
    show "\<exists>h bs m. txt_block r = h # bs \<and> \<not> separator_pattern (strip h) \<and>
        slide_pattern dv (strip h) = Some m \<and>
        list_all (\<lambda>x. separator_pattern (strip x) \<or> slide_pattern dv (strip x) = None) bs \<and>
        save_slide (ascii ''[No notes]'') [] (Some m)
          (map rstrip (filter (\<lambda>x. \<not> separator_pattern (strip x) \<and>
                                   \<not> strip x = ascii ''[No notes]'') bs)) = [trimmed r]" .
  qed
  ultimately show ?thesis
    by (simp add: parse_txt_loop_shape save_slide_def)
qed

lemma txt_round_trip:
  assumes dv: "digit_table dv" and sep: "linesep = [10] \<or> linesep = [13, 10]"
    and ok: "list_all (txt_ok dv) rs"
  shows "\<exists>f. export_to_txt linesep rs = Inr f \<and> parse_txt dv f = map trimmed rs"
proof -
  from file_round_trip_storable[OF sep txt_content_storable[OF ok]] obtain f where
    f: "file_write linesep (join_nl (concat (map txt_lines rs))) = Inr f"
       "file_read f = join_nl (concat (map txt_lines rs))" by blast
  then show ?thesis
    using parse_txt_content[OF dv ok] by (simp add: export_to_txt_def parse_txt_def)
qed

subsection \<open>Markdown files\<close>

lemma ascii_md:
  "ascii ''# '' = [35, 32]" "ascii ''---'' = [45, 45, 45]" "ascii ''## '' = [35, 35, 32]"
  "ascii ''*[No notes]*'' = [42, 91, 78, 111, 32, 110, 111, 116, 101, 115, 93, 42]"
  "ascii ''# Speaker Notes'' = [35, 32, 83, 112, 101, 97, 107, 101, 114, 32, 78, 111, 116, 101, 115]"
  by (simp_all add: ascii_def)

lemma md_placeholder_facts:
  "strip (ascii ''*[No notes]*'') = ascii ''*[No notes]*''"
  "md_slide_pattern dv (ascii ''*[No notes]*'') = None"
  "take 2 (ascii ''*[No notes]*'') \<noteq> ascii ''# ''"
  "ascii ''*[No notes]*'' \<noteq> ascii ''---''"
  "10 \<notin> set (ascii ''*[No notes]*'')"
  "ascii ''*[No notes]*'' \<noteq> []"
  "storable (ascii ''*[No notes]*'')"
proof -
  show "strip (ascii ''*[No notes]*'') = ascii ''*[No notes]*''"
    by (rule strip_id) (simp add: ascii_md is_space_def)
qed (simp_all add: ascii_md md_slide_pattern_def storable_iff)

lemma md_rule_facts:
  "strip (ascii ''---'') = ascii ''---''" "10 \<notin> set (ascii ''---'')" "storable (ascii ''---'')"
proof -
  show "strip (ascii ''---'') = ascii ''---''"
    by (rule strip_id) (simp add: ascii_md is_space_def)
qed (simp_all add: ascii_md storable_iff)

lemma md_title_facts:
  "strip (ascii ''# Speaker Notes'') = ascii ''# Speaker Notes''"
  "take 2 (ascii ''# Speaker Notes'') = ascii ''# ''"
  "10 \<notin> set (ascii ''# Speaker Notes'')" "storable (ascii ''# Speaker Notes'')"
proof -
  show "strip (ascii ''# Speaker Notes'') = ascii ''# Speaker Notes''"
    by (rule strip_id) (simp add: ascii_md is_space_def)
qed (simp_all add: ascii_md storable_iff)

lemma md_empty_line_facts:
  "md_slide_pattern dv [] = None" "take 2 [] \<noteq> ascii ''# ''" "[] \<noteq> ascii ''---''"
  "[] \<noteq> ascii ''*[No notes]*''" "[] \<noteq> ascii ''# ''"
  by (simp_all add: md_slide_pattern_def ascii_md)

lemma md_header_facts:
  assumes "strip t = t"
  shows "strip (ascii ''## '' @ header_text n t) = ascii ''## '' @ header_text n t"
    and "take 2 (ascii ''## '' @ header_text n t) \<noteq> ascii ''# ''"
    and "ascii ''## '' @ header_text n t \<noteq> ascii ''---''"
    and "md_slide_pattern dv (ascii ''## '' @ header_text n t) = slide_pattern dv (header_text n t)"
proof -
  have ne: "header_text n t \<noteq> []" by (subst header_text_hd) simp
  have l: "\<not> is_space (last (header_text n t))"
    using strip_fixed_ends[OF header_text_strip[OF assms, of n] ne] by simp
  show "strip (ascii ''## '' @ header_text n t) = ascii ''## '' @ header_text n t"
    using ne l by (intro strip_id) (simp add: ascii_md is_space_def)
  show "take 2 (ascii ''## '' @ header_text n t) \<noteq> ascii ''# ''"
    "ascii ''## '' @ header_text n t \<noteq> ascii ''---''"
    by (simp_all add: ascii_md)
  have "dropWhile is_space (32 # header_text n t) = header_text n t"
    by (subst header_text_hd, subst (2) header_text_hd) (simp add: is_space_def)
  moreover have "takeWhile is_space (32 # header_text n t) \<noteq> []"
    by (simp add: is_space_def)
  ultimately show "md_slide_pattern dv (ascii ''## '' @ header_text n t) =
      slide_pattern dv (header_text n t)"
    by (simp add: md_slide_pattern_def ascii_md del: takeWhile.simps dropWhile.simps)
qed

lemma md_block_eq:
  assumes "title_ok (slide_title r)"
  shows "md_block r =
     (ascii ''## '' @ header_text (slide_number r) (slide_title r)) #
       ([[]] @
        split_nl (if notes_text r \<noteq> [] then notes_text r else ascii ''*[No notes]*'') @
        [[], ascii ''---'', []])"
proof -
  have "10 \<notin> set (ascii ''## '' @ header_text (slide_number r) (slide_title r))"
    using assms header_text_no_lf[of "slide_title r" "slide_number r"]
    by (simp add: title_ok_def ascii_md)
  then show ?thesis
    by (simp add: md_block_def md_lines_def split_nl_no_lf md_rule_facts del: split_nl.simps)
qed

lemma md_frame_inert:
  "list_all (\<lambda>x. (take 2 (strip x) = ascii ''# '' \<or> strip x = ascii ''---'') \<or>
                  md_slide_pattern dv (strip x) = None) body \<Longrightarrow>
   list_all (\<lambda>x. (take 2 (strip x) = ascii ''# '' \<or> strip x = ascii ''---'') \<or>
                  md_slide_pattern dv (strip x) = None)
     ([[]] @ body @ [[], ascii ''---'', []])"
  by (simp add: md_rule_facts md_empty_line_facts)

lemma md_frame_kept:
  "map rstrip (filter (\<lambda>x. \<not> (take 2 (strip x) = ascii ''# '' \<or> strip x = ascii ''---'') \<and>
                            \<not> strip x = ascii ''*[No notes]*'')
      ([[]] @ body @ [[], ascii ''---'', []])) =
   [] # map rstrip (filter (\<lambda>x. \<not> (take 2 (strip x) = ascii ''# '' \<or> strip x = ascii ''---'') \<and>
                            \<not> strip x = ascii ''*[No notes]*'') body) @ [[], []]"
  by (simp add: md_rule_facts md_empty_line_facts)

lemma md_block_parses:
  assumes dv: "digit_table dv" and ok: "md_ok dv r"
  shows "\<exists>h bs m. md_block r = h # bs \<and>
        \<not> (take 2 (strip h) = ascii ''# '' \<or> strip h = ascii ''---'') \<and>
        md_slide_pattern dv (strip h) = Some m \<and>
        list_all (\<lambda>x. (take 2 (strip x) = ascii ''# '' \<or> strip x = ascii ''---'') \<or>
                       md_slide_pattern dv (strip x) = None) bs \<and>
        save_slide (ascii ''*[No notes]*'') [] (Some m)
          (map rstrip (filter (\<lambda>x. \<not> (take 2 (strip x) = ascii ''# '' \<or> strip x = ascii ''---'') \<and>
                                   \<not> strip x = ascii ''*[No notes]*'') bs)) = [trimmed r]"
proof -
  let ?ph = "ascii ''*[No notes]*''"
  let ?h = "ascii ''## '' @ header_text (slide_number r) (slide_title r)"
  let ?body = "split_nl (if notes_text r \<noteq> [] then notes_text r else ?ph)"
  let ?bs = "[[]] @ ?body @ [[], ascii ''---'', []]"
  let ?skip = "\<lambda>x. take 2 (strip x) = ascii ''# '' \<or> strip x = ascii ''---''"
  let ?keep = "\<lambda>x. \<not> ?skip x \<and> \<not> strip x = ?ph"
  from ok have t: "title_ok (slide_title r)" and
    ls: "list_all (md_line_ok dv) (split_nl (notes_text r))"
    by (simp_all add: md_ok_def)
  from t have st: "strip (slide_title r) = slide_title r" and nl: "10 \<notin> set (slide_title r)"
    by (simp_all add: title_ok_def)
  note hf = md_header_facts[OF st, where n = "slide_number r"]
  have 1: "md_block r = ?h # ?bs" by (rule md_block_eq[OF t])
  have 2: "\<not> ?skip ?h" unfolding hf(1) using hf(2,3) by blast
  have 3: "md_slide_pattern dv (strip ?h) = Some (slide_number r, slide_title r)"
    unfolding hf(1) hf(4) by (rule slide_pattern_header[OF dv nl st])
  have body: "list_all (\<lambda>x. ?skip x \<or> md_slide_pattern dv (strip x) = None) ?body"
  proof (cases "notes_text r = []")
    case True
    have "?body = [?ph]" using True by (simp add: split_nl_no_lf md_placeholder_facts)
    then show ?thesis by (simp add: md_placeholder_facts)
  next
    case False
    with ls show ?thesis by (auto simp: list_all_iff md_line_ok_def)
  qed
  have 4: "list_all (\<lambda>x. ?skip x \<or> md_slide_pattern dv (strip x) = None) ?bs"
    by (rule md_frame_inert[OF body])
  have kept: "map rstrip (filter ?keep ?body) =
      (if notes_text r \<noteq> [] then split_nl (notes_text r) else [])"
  proof (cases "notes_text r = []")
    case True
    have "?body = [?ph]" using True by (simp add: split_nl_no_lf md_placeholder_facts)
    then show ?thesis using True by (simp add: md_placeholder_facts)
  next
    case False
    have "filter ?keep (split_nl (notes_text r)) = split_nl (notes_text r)"
      using ls by (auto simp: list_all_iff md_line_ok_def)
    moreover have "map rstrip (split_nl (notes_text r)) = split_nl (notes_text r)"
      using ls by (auto simp: list_all_iff md_line_ok_def intro: map_idI)
    ultimately show ?thesis using False by simp
  qed
  have 5: "save_slide ?ph [] (Some (slide_number r, slide_title r))
      (map rstrip (filter ?keep ?bs)) = [trimmed r]"
  proof (cases "notes_text r = []")
    case True
    have "strip (join_nl [[], [], []]) = []"
      using strip_pad[of "[10, 10]" "[]" "[]"] by (simp add: is_space_def)
    then show ?thesis unfolding md_frame_kept kept using True
      by (simp add: save_slide_Some trimmed_def md_placeholder_facts)
  next
    case False
    have "strip (notes_text r) \<noteq> ?ph"
    proof (rule notes_not_placeholder)
      fix l assume "l \<in> set (split_nl (notes_text r))"
      with ls show "strip l \<noteq> ?ph" by (auto simp: list_all_iff md_line_ok_def)
    qed (simp_all add: md_placeholder_facts)
    then show ?thesis unfolding md_frame_kept kept using False
      by (simp add: save_slide_Some trimmed_def join_padded strip_padded
               del: split_nl.simps join_nl.simps)
  qed
  show ?thesis
    by (rule exI[of _ ?h], rule exI[of _ ?bs], rule exI[of _ "(slide_number r, slide_title r)"])
       (intro conjI 1 2 3 4 5)
qed

lemma md_content_storable:
  assumes "list_all (md_ok dv) rs"
  shows "storable (join_nl ([ascii ''# Speaker Notes'', []] @ concat (map md_lines rs)))"
proof (rule storable_join)
  have "list_all storable (md_lines r)" if "md_ok dv r" for r
    using that
    by (simp add: md_ok_def md_lines_def storable_header md_rule_facts md_placeholder_facts)
       (simp add: ascii_md storable_iff)
  then show "list_all storable ([ascii ''# Speaker Notes'', []] @ concat (map md_lines rs))"
    using assms by (auto simp: list_all_iff md_title_facts)
qed

lemma parse_md_content:
  assumes dv: "digit_table dv" and ok: "list_all (md_ok dv) rs"
  shows "parse_md_loop dv
           (split_nl (join_nl ([ascii ''# Speaker Notes'', []] @ concat (map md_lines rs))))
           [] None [] = map trimmed rs"
proof -
  let ?skip = "\<lambda>x. take 2 (strip x) = ascii ''# '' \<or> strip x = ascii ''---''"
  have "split_nl (join_nl ([ascii ''# Speaker Notes'', []] @ concat (map md_lines rs))) =
      concat (map split_nl ([ascii ''# Speaker Notes'', []] @ concat (map md_lines rs)))"
    by (rule split_join) simp
  also have "\<dots> = [ascii ''# Speaker Notes'', []] @ concat (map md_block rs)"
    by (simp add: split_nl_no_lf md_title_facts concat_map_concat md_block_def[abs_def] comp_def
             del: split_nl.simps)
  finally have c: "split_nl (join_nl ([ascii ''# Speaker Notes'', []] @ concat (map md_lines rs))) =
      [ascii ''# Speaker Notes'', []] @ concat (map md_block rs)" .
  have p: "list_all (\<lambda>x. ?skip x \<or> md_slide_pattern dv (strip x) = None)
      [ascii ''# Speaker Notes'', []]"
    by (simp add: md_title_facts md_empty_line_facts)
  have "parse_loop ?skip (\<lambda>l. md_slide_pattern dv (strip l))
       (\<lambda>l. strip l = ascii ''*[No notes]*'') rstrip (ascii ''*[No notes]*'')
       (concat (map md_block rs)) [] None [] =
       save_slide (ascii ''*[No notes]*'') [] None [] @ map trimmed rs"
  proof (rule parse_loop_blocks)
    fix r assume "r \<in> set rs"
    with ok have "md_ok dv r" by (simp add: list_all_iff)
    from md_block_parses[OF dv this]
    show "\<exists>h bs m. md_block r = h # bs \<and> \<not> ?skip h \<and>
        md_slide_pattern dv (strip h) = Some m \<and>
        list_all (\<lambda>x. ?skip x \<or> md_slide_pattern dv (strip x) = None) bs \<and>
        save_slide (ascii ''*[No notes]*'') [] (Some m)
          (map rstrip (filter (\<lambda>x. \<not> ?skip x \<and> \<not> strip x = ascii ''*[No notes]*'') bs)) =
        [trimmed r]" .
  qed
  then show ?thesis
    unfolding c parse_md_loop_shape parse_loop_closed[OF p]
    by (simp add: save_slide_def)
qed

lemma md_round_trip:
  assumes dv: "digit_table dv" and sep: "linesep = [10] \<or> linesep = [13, 10]"
    and ok: "list_all (md_ok dv) rs"
  shows "\<exists>f. export_to_md linesep rs = Inr f \<and> parse_md dv f = map trimmed rs"
proof -
  from file_round_trip_storable[OF sep md_content_storable[OF ok]] obtain f where
    f: "file_write linesep (join_nl ([ascii ''# Speaker Notes'', []] @ concat (map md_lines rs))) = Inr f"
       "file_read f = join_nl ([ascii ''# Speaker Notes'', []] @ concat (map md_lines rs))" by blast
  then show ?thesis
    using parse_md_content[OF dv ok] by (simp add: export_to_md_def parse_md_def)
qed

subsection \<open>Word documents\<close>

lemma docx_block_parses:
  assumes dv: "digit_table dv" and ok: "docx_ok dv r"
  shows "\<exists>h bs m. docx_paragraphs r = h # bs \<and>
        \<not> (strip (para_text h) = [] \<or> separator_pattern (strip (para_text h))) \<and>
        slide_pattern dv (strip (para_text h)) = Some m \<and>
        list_all (\<lambda>x. (strip (para_text x) = [] \<or> separator_pattern (strip (para_text x))) \<or>
                       slide_pattern dv (strip (para_text x)) = None) bs \<and>
        save_slide (ascii ''[No notes]'') [] (Some m)
          (map (\<lambda>p. strip (para_text p))
            (filter (\<lambda>x. \<not> (strip (para_text x) = [] \<or> separator_pattern (strip (para_text x))) \<and>
                          \<not> strip (para_text x) = ascii ''[No notes]'') bs)) = [trimmed r]"
proof -
  let ?ph = "ascii ''[No notes]''"
  let ?ht = "header_text (slide_number r) (slide_title r)"
  let ?h = "\<lparr>para_text = ?ht, para_bold = True, para_italic = False\<rparr>"
  let ?body = "if notes_text r \<noteq> [] then map plain_para (split_nl (notes_text r))
               else [\<lparr>para_text = ?ph, para_bold = False, para_italic = True\<rparr>]"
  let ?bs = "[plain_para thin_rule] @ ?body @ [plain_para []]"
  let ?skip = "\<lambda>x. strip (para_text x) = [] \<or> separator_pattern (strip (para_text x))"
  let ?keep = "\<lambda>x. \<not> ?skip x \<and> \<not> strip (para_text x) = ?ph"
  from ok have t: "title_ok (slide_title r)"
    and sn: "sanitize_text (slide_title r) = slide_title r"
      "sanitize_text (notes_text r) = notes_text r"
    and ls: "notes_text r = [] \<or> list_all (docx_line_ok dv) (split_nl (notes_text r))"
    by (simp_all add: docx_ok_def)
  from t have st: "strip (slide_title r) = slide_title r" and nl: "10 \<notin> set (slide_title r)"
    by (simp_all add: title_ok_def)
  have hs: "strip ?ht = ?ht" by (rule header_text_strip[OF st])
  have hne: "?ht \<noteq> []" by (subst header_text_hd) simp
  have lines: "map (\<lambda>t. plain_para (strip t)) (filter (\<lambda>t. strip t \<noteq> []) (split_nl (notes_text r))) =
      map plain_para (split_nl (notes_text r))" if "notes_text r \<noteq> []"
  proof -
    from that ls have l: "list_all (docx_line_ok dv) (split_nl (notes_text r))" by simp
    then have "filter (\<lambda>t. strip t \<noteq> []) (split_nl (notes_text r)) = split_nl (notes_text r)"
      by (auto simp: list_all_iff docx_line_ok_def)
    moreover have "map (\<lambda>t. plain_para (strip t)) (split_nl (notes_text r)) =
        map plain_para (split_nl (notes_text r))"
      using l by (auto simp: list_all_iff docx_line_ok_def)
    ultimately show ?thesis by simp
  qed
  have dh: "docx_header (slide_number r) (slide_title r) = ?ht"
    by (simp add: docx_header_def header_text_def sn)
  have 1: "docx_paragraphs r = ?h # ?bs"
    using lines by (simp add: docx_paragraphs_def dh sn del: split_nl.simps)
  have 2: "\<not> ?skip ?h" by (simp add: hs hne header_not_separator)
  have 3: "slide_pattern dv (strip (para_text ?h)) = Some (slide_number r, slide_title r)"
    by (simp add: hs slide_pattern_header[OF dv nl st])
  have body: "list_all (\<lambda>x. ?skip x \<or> slide_pattern dv (strip (para_text x)) = None) ?body"
  proof (cases "notes_text r = []")
    case True
    then show ?thesis by (simp add: placeholder_facts)
  next
    case False
    with ls have "list_all (docx_line_ok dv) (split_nl (notes_text r))" by simp
    then show ?thesis using False
      by (auto simp: list_all_iff docx_line_ok_def plain_para_def)
  qed
  have 4: "list_all (\<lambda>x. ?skip x \<or> slide_pattern dv (strip (para_text x)) = None) ?bs"
    using body by (simp add: plain_para_def rule_strip rule_separator)
  have kept: "map (\<lambda>p. strip (para_text p)) (filter ?keep ?bs) =
      (if notes_text r \<noteq> [] then split_nl (notes_text r) else [])"
  proof (cases "notes_text r = []")
    case True
    then show ?thesis by (simp add: plain_para_def rule_strip rule_separator placeholder_facts)
  next
    case False
    with ls have l: "list_all (docx_line_ok dv) (split_nl (notes_text r))" by simp
    have "filter ?keep (map plain_para (split_nl (notes_text r))) =
        map plain_para (split_nl (notes_text r))"
      using l by (auto simp: list_all_iff docx_line_ok_def plain_para_def)
    moreover have "map (\<lambda>p. strip (para_text p)) (map plain_para (split_nl (notes_text r))) =
        split_nl (notes_text r)"
      using l by (auto simp: list_all_iff docx_line_ok_def plain_para_def intro: map_idI)
    ultimately show ?thesis using False
      by (simp add: plain_para_def rule_strip rule_separator del: split_nl.simps)
  qed
  have 5: "save_slide ?ph [] (Some (slide_number r, slide_title r))
      (map (\<lambda>p. strip (para_text p)) (filter ?keep ?bs)) = [trimmed r]"
  proof (cases "notes_text r = []")
    case True
    then show ?thesis unfolding kept
      by (simp add: save_slide_Some trimmed_def placeholder_facts)
  next
    case False
    with ls have l: "list_all (docx_line_ok dv) (split_nl (notes_text r))" by simp
    have "strip (notes_text r) \<noteq> ?ph"
    proof (rule notes_not_placeholder)
      fix x assume "x \<in> set (split_nl (notes_text r))"
      with l show "strip x \<noteq> ?ph" by (auto simp: list_all_iff docx_line_ok_def)
    qed (simp_all add: placeholder_facts)
    then show ?thesis unfolding kept using False
      by (simp add: save_slide_Some trimmed_def del: split_nl.simps join_nl.simps)
  qed
  show ?thesis
    by (rule exI[of _ ?h], rule exI[of _ ?bs], rule exI[of _ "(slide_number r, slide_title r)"])
       (intro conjI 1 2 3 4 5)
qed

lemma docx_round_trip:
  assumes dv: "digit_table dv" and ok: "list_all (docx_ok dv) rs"
  shows "\<exists>doc. export_to_docx True rs = Inr doc \<and> parse_docx dv True doc = Inr (map trimmed rs)"
proof -
  let ?skip = "\<lambda>x. strip (para_text x) = [] \<or> separator_pattern (strip (para_text x))"
  have "parse_loop ?skip (\<lambda>p. slide_pattern dv (strip (para_text p)))
       (\<lambda>p. strip (para_text p) = ascii ''[No notes]'') (\<lambda>p. strip (para_text p))
       (ascii ''[No notes]'') (concat (map docx_paragraphs rs)) [] None [] =
       save_slide (ascii ''[No notes]'') [] None [] @ map trimmed rs"
  proof (rule parse_loop_blocks)
    fix r assume "r \<in> set rs"
    with ok have "docx_ok dv r" by (simp add: list_all_iff)
    from docx_block_parses[OF dv this]
    show "\<exists>h bs m. docx_paragraphs r = h # bs \<and> \<not> ?skip h \<and>
        slide_pattern dv (strip (para_text h)) = Some m \<and>
        list_all (\<lambda>x. ?skip x \<or> slide_pattern dv (strip (para_text x)) = None) bs \<and>
        save_slide (ascii ''[No notes]'') [] (Some m)
          (map (\<lambda>p. strip (para_text p))
            (filter (\<lambda>x. \<not> ?skip x \<and> \<not> strip (para_text x) = ascii ''[No notes]'') bs)) =
        [trimmed r]" .
  qed
  then show ?thesis
    by (simp add: export_to_docx_def parse_docx_def parse_docx_loop_shape save_slide_def)
qed

lemmas text_eval =
  ascii_def strip_def lstrip_def rstrip_def is_space_def separator_pattern_def is_rule_def
  at_end_def slide_pattern_def md_slide_pattern_def letter_match_def is_digit_def
  ascii_digit_def int_of_digits_def Let_def

lemma sample_txt_ok: "list_all (txt_ok ascii_digit) sample_notes"
  by (simp add: sample_notes_def txt_ok_def title_ok_def storable_def encodable_def
        txt_line_ok_def text_eval)

lemma cx_lines:
  "split_nl (join_nl (txt_lines \<lparr>slide_number = 1, slide_title = [], notes_text = ascii ''Slide 2''\<rparr>)) =
     [ascii ''Slide 1'', thin_rule, [], ascii ''Slide 2'', [], double_rule, []]"
proof -
  have "txt_lines \<lparr>slide_number = 1, slide_title = [], notes_text = ascii ''Slide 2''\<rparr> =
      [ascii ''Slide 1'', thin_rule, [], ascii ''Slide 2'', [], double_rule, []]"
    by (simp add: txt_lines_def header_text_def decimal.simps ascii_def)
  moreover have "10 \<notin> set (ascii ''Slide 1'')" "10 \<notin> set (ascii ''Slide 2'')"
    by (simp_all add: ascii_def)
  ultimately show ?thesis
    by (simp add: split_join split_nl_no_lf rule_no_lf del: split_nl.simps join_nl.simps)
qed

lemma cx_parse:
  "parse_txt_loop ascii_digit
     [ascii ''Slide 1'', thin_rule, [], ascii ''Slide 2'', [], double_rule, []] [] None [] =
   [\<lparr>slide_number = 1, slide_title = [], notes_text = []\<rparr>,
    \<lparr>slide_number = 2, slide_title = [], notes_text = []\<rparr>]"
proof -
  have s: "strip (ascii ''Slide 1'') = ascii ''Slide 1''" "strip (ascii ''Slide 2'') = ascii ''Slide 2''"
    by (simp_all add: text_eval)
  have p: "slide_pattern ascii_digit (ascii ''Slide 1'') = Some (1, [])"
    "slide_pattern ascii_digit (ascii ''Slide 2'') = Some (2, [])"
    by (simp_all add: text_eval)
  have n: "\<not> separator_pattern (ascii ''Slide 1'')" "\<not> separator_pattern (ascii ''Slide 2'')"
    by (simp_all add: text_eval)
  have j: "strip (join_nl [[]]) = []" "strip (join_nl [[], []]) = []" "[] \<noteq> ascii ''[No notes]''"
    by (simp_all add: text_eval)
  show ?thesis
    by (simp add: s p n j rule_strip rule_separator empty_line_facts save_slide_def Let_def
             del: join_nl.simps)
qed

lemma digit_table_ascii: "digit_table ascii_digit"
  by (auto simp: digit_table_def ascii_digit_def is_space_def)

lemma sample_md_ok: "list_all (md_ok ascii_digit) sample_notes"
  by (simp add: sample_notes_def md_ok_def title_ok_def storable_def encodable_def
        md_line_ok_def text_eval)

lemma sample_docx_ok: "list_all (docx_ok ascii_digit) sample_notes"
  by (simp add: sample_notes_def docx_ok_def title_ok_def storable_def encodable_def
        docx_line_ok_def sanitize_text_def in_delete_chars text_eval)

text \<open>
  Claim C1 as stated fails: the notes body \<open>Slide 2\<close> is plain text without the
  placeholder, and the text file written for the one record of slide 1 is parsed as two
  records with empty notes, for slides 1 and 2.
\<close>

theorem header_in_notes_counterexample:
  "(case export_to_txt [13, 10]
           [\<lparr>slide_number = 1, slide_title = [], notes_text = ascii ''Slide 2''\<rparr>] of
      Inl e \<Rightarrow> []
    | Inr f \<Rightarrow> parse_txt ascii_digit f) =
   [\<lparr>slide_number = 1, slide_title = [], notes_text = []\<rparr>,
    \<lparr>slide_number = 2, slide_title = [], notes_text = []\<rparr>]"
proof -
  let ?r = "\<lparr>slide_number = 1, slide_title = [], notes_text = ascii ''Slide 2''\<rparr>"
  have "storable (join_nl (txt_lines ?r))"
    by (rule storable_join)
       (simp add: txt_lines_def storable_header storable_rules, simp add: storable_iff ascii_def)
  from file_round_trip_storable[OF _ this, of "[13, 10]"] obtain f where
    f: "file_write [13, 10] (join_nl (txt_lines ?r)) = Inr f"
       "file_read f = join_nl (txt_lines ?r)" by auto
  have e: "export_to_txt [13, 10] [?r] = Inr f"
    using f(1) by (simp add: export_to_txt_def)
  have "parse_txt ascii_digit f =
      [\<lparr>slide_number = 1, slide_title = [], notes_text = []\<rparr>,
       \<lparr>slide_number = 2, slide_title = [], notes_text = []\<rparr>]"
    unfolding parse_txt_def f(2) cx_lines by (rule cx_parse)
  then show ?thesis unfolding e by simp
qed

lemma padded_txt_ok: "list_all (txt_ok ascii_digit) padded_notes"
  by (simp add: padded_notes_def txt_ok_def title_ok_def storable_def encodable_def
        txt_line_ok_def text_eval)

lemma padded_trimmed:
  "map trimmed padded_notes =
     [\<lparr>slide_number = 7, slide_title = ascii ''T'',
       notes_text = ascii ''Hello'' @ [10, 10] @ ascii ''world''\<rparr>]"
  by (simp add: padded_notes_def trimmed_def text_eval)

text \<open>
  Claim C1, as amended. In each of the three formats, parsing the serialized file gives
  back the records, with the same slide numbers and titles and with the notes trimmed,
  provided that every title is free of line feeds and of whitespace at its ends, that no
  title or notes body holds a carriage return or a surrogate, and that no line of a notes
  body is one the parser takes for something else (a header line, a rule, the
  placeholder; in Markdown also a document title or a horizontal rule) or ends in
  whitespace; for Word documents, in addition, titles and notes hold no control
  character that sanitizing removes, and no line of the notes is blank or starts with
  whitespace. The line separator of the platform is a line feed, or a carriage return
  and a line feed.
\<close>

theorem notes_round_trip:
  assumes "digit_table dv" and "linesep = [10] \<or> linesep = [13, 10]"
  shows "(list_all (txt_ok dv) rs \<longrightarrow>
            (\<exists>f. export_to_txt linesep rs = Inr f \<and> parse_txt dv f = map trimmed rs)) \<and>
         (list_all (md_ok dv) rs \<longrightarrow>
            (\<exists>f. export_to_md linesep rs = Inr f \<and> parse_md dv f = map trimmed rs)) \<and>
         (list_all (docx_ok dv) rs \<longrightarrow>
            (\<exists>doc. export_to_docx True rs = Inr doc \<and>
                   parse_docx dv True doc = Inr (map trimmed rs)))"
  using txt_round_trip[OF assms] md_round_trip[OF assms] docx_round_trip[OF assms(1)]
  by blast

text \<open>
  The statement at \<open>sample_notes\<close> in the three formats, and at \<open>padded_notes\<close>,
  whose notes come back trimmed, in the text format.
\<close>

theorem notes_round_trip_witness:
  "digit_table ascii_digit \<and>
   list_all (txt_ok ascii_digit) sample_notes \<and>
   list_all (md_ok ascii_digit) sample_notes \<and>
   list_all (docx_ok ascii_digit) sample_notes \<and>
   (\<exists>f. export_to_txt [13, 10] sample_notes = Inr f \<and>
        parse_txt ascii_digit f = map trimmed sample_notes) \<and>
   (\<exists>f. export_to_md [13, 10] sample_notes = Inr f \<and>
        parse_md ascii_digit f = map trimmed sample_notes) \<and>
   (\<exists>doc. export_to_docx True sample_notes = Inr doc \<and>
        parse_docx ascii_digit True doc = Inr (map trimmed sample_notes)) \<and>
   list_all (txt_ok ascii_digit) padded_notes \<and>
   (\<exists>f. export_to_txt [13, 10] padded_notes = Inr f \<and>
        parse_txt ascii_digit f =
          [\<lparr>slide_number = 7, slide_title = ascii ''T'',
            notes_text = ascii ''Hello'' @ [10, 10] @ ascii ''world''\<rparr>])"
proof -
  have sep: "[13, 10] = [10] \<or> [13, 10] = [13, 10::nat]" by simp
  note a = notes_round_trip[OF digit_table_ascii sep, of sample_notes]
  note b = notes_round_trip[OF digit_table_ascii sep, of padded_notes]
  from a sample_txt_ok sample_md_ok sample_docx_ok
  have "(\<exists>f. export_to_txt [13, 10] sample_notes = Inr f \<and>
        parse_txt ascii_digit f = map trimmed sample_notes) \<and>
   (\<exists>f. export_to_md [13, 10] sample_notes = Inr f \<and>
        parse_md ascii_digit f = map trimmed sample_notes) \<and>
   (\<exists>doc. export_to_docx True sample_notes = Inr doc \<and>
        parse_docx ascii_digit True doc = Inr (map trimmed sample_notes))"
    by blast
  moreover from b padded_txt_ok
  have "\<exists>f. export_to_txt [13, 10] padded_notes = Inr f \<and>
        parse_txt ascii_digit f = map trimmed padded_notes"
    by blast
  ultimately show ?thesis
    using digit_table_ascii sample_txt_ok sample_md_ok sample_docx_ok padded_txt_ok
    unfolding padded_trimmed by blast
qed

section \<open>The differ on the output of the parsers\<close>












text \<open>
  The branch for a slide without counterpart tests the notes as they are, so the
  statement needs the notes of \<open>edited\<close> trimmed: a record that no parser returns, with
  notes of one space, is reported as added.
\<close>

lemma compare_notes_untrimmed:
  "compare_notes [] [\<lparr>slide_number = 1, slide_title = [], notes_text = [32]\<rparr>] =
     [\<lparr>ch_slide_number = 1, ch_slide_title = [], original_notes = [],
       edited_notes = [32], change_type = Added\<rparr>] \<and>
   \<not> stripped [\<lparr>slide_number = 1, slide_title = [], notes_text = [32]\<rparr>]"
  by (simp add: compare_notes_def by_slide_def compare_item_def stripped_def strip_def
        lstrip_def rstrip_def is_space_def)

end
